theory Spec2Isabelle
  imports Complex_Main
begin

section \<open>Lead pipeline engine: data model\<close>

text \<open>
  The enumerations of the Prisma client, with the members the services name. Members of
  different enumerations that share a name carry a prefix: \<open>L_\<close> for LeadStatus,
  \<open>I_\<close> for IntentLevel, \<open>A_\<close> for ActivityType, \<open>O_\<close> for ActivityOutcome and
  \<open>P_\<close> for PolicyStatus.
\<close>

datatype LeadStatus =
    L_NEW | L_CONTACTED | L_ENGAGED | L_QUALIFIED | L_PROPOSAL | L_APPLICATION
  | L_UNDERWRITING | L_PLACED | L_NOT_PLACED | L_NOT_INTERESTED | L_LOST | L_UNRESPONSIVE

datatype IntentLevel = I_HOT | I_WARM | I_COLD | I_UNKNOWN | I_NONE

datatype ActivityType =
    A_CALL_INBOUND | A_CALL_OUTBOUND | A_EMAIL_SENT | A_EMAIL_RECEIVED | A_TEXT_SENT
  | A_TEXT_RECEIVED | A_MEETING_SCHEDULED | A_MEETING_COMPLETED | A_NOTE | A_TASK_COMPLETED
  | A_PROPOSAL_SENT | A_APPLICATION_SENT | A_FOLLOW_UP | A_VOICEMAIL_LEFT
  | A_VOICEMAIL_RECEIVED | A_APPOINTMENT_SET | A_APPOINTMENT_NO_SHOW | A_REFERRAL_RECEIVED
  | A_OTHER

datatype ActivityOutcome =
    O_SOLD | O_INTERESTED | O_POSITIVE | O_NEUTRAL | O_CALLBACK | O_LEFT_MESSAGE
  | O_FOLLOW_UP_SET | O_NEGATIVE | O_NOT_INTERESTED | O_NO_ANSWER

datatype PolicyStatus =
    P_QUOTED | P_APPLIED | P_UNDERWRITING | P_APPROVED | P_ISSUED | P_PENDING_REQUIREMENTS
  | P_DECLINED | P_POSTPONED | P_WITHDRAWN | P_LAPSED | P_SURRENDERED | P_REPLACED

datatype ProductType =
    TERM_LIFE | WHOLE_LIFE | UNIVERSAL_LIFE | FINAL_EXPENSE | IUL | HEALTH_ACA
  | HEALTH_SHORT_TERM | MEDICARE_SUPPLEMENT | MEDICARE_ADVANTAGE | DENTAL | VISION
  | DISABILITY_INCOME | CRITICAL_ILLNESS | LONG_TERM_CARE | ANNUITY | OTHER

datatype CommissionType = FIRST_YEAR | RENEWAL | BONUS

datatype CommissionStatus = PENDING | PAID | CLAWED_BACK

datatype AutomationTrigger =
    LEAD_CREATED | LEAD_STATUS_CHANGED | ACTIVITY_LOGGED | POLICY_CREATED | POLICY_ISSUED
  | COMMISSION_EARNED | SCORE_CHANGED | CUSTOM

text \<open>The string value of each member of the enum AutomationTrigger.\<close>

fun triggerValue :: "AutomationTrigger \<Rightarrow> string" where
  "triggerValue LEAD_CREATED = ''lead.created''"
| "triggerValue LEAD_STATUS_CHANGED = ''lead.status_changed''"
| "triggerValue ACTIVITY_LOGGED = ''activity.logged''"
| "triggerValue POLICY_CREATED = ''policy.created''"
| "triggerValue POLICY_ISSUED = ''policy.issued''"
| "triggerValue COMMISSION_EARNED = ''commission.earned''"
| "triggerValue SCORE_CHANGED = ''score.changed''"
| "triggerValue CUSTOM = ''custom''"

text \<open>
  A parsed JSON value. An object is the list of its properties. A column that holds JSON
  text (a campaign's \<open>triggerCondition\<close> and \<open>actions\<close>) is modelled by what
  \<open>JSON.parse\<close> makes of it: \<open>None\<close> is a text that \<open>JSON.parse\<close> rejects.
\<close>

datatype json =
    JNull | JBool bool | JNum rat | JStr string | JArr "json list"
  | JObj "(string \<times> json) list"

type_synonym json_text = "json option"

text \<open>
  Times are milliseconds since the epoch, as \<open>Date.getTime()\<close> gives them. A date that is
  computed with calendar arithmetic (\<open>setDate\<close>, \<open>setFullYear\<close>) is kept symbolic.
\<close>

datatype schedule = DaysAfter int nat | YearsAfter int nat

record Lead =
  lead_id :: string
  lead_agentId :: string
  lead_email :: "string option"
  lead_phone :: string
  lead_status :: LeadStatus
  lead_intentLevel :: IntentLevel
  lead_score :: int
  lead_updatedAt :: int

record Activity =
  act_leadId :: string
  act_agentId :: string
  act_type :: ActivityType
  act_outcome :: "ActivityOutcome option"
  act_timestamp :: int

record Policy =
  pol_id :: string
  pol_agentId :: string
  pol_leadId :: string
  pol_productType :: ProductType
  pol_premium :: rat
  pol_commissionRate :: rat
  pol_commissionAmount :: rat
  pol_status :: PolicyStatus
  pol_issueDate :: "int option"

record Commission =
  com_policyId :: string
  com_agentId :: string
  com_amount :: rat
  com_type :: CommissionType
  com_status :: CommissionStatus
  com_scheduledDate :: schedule

record Campaign =
  cmp_id :: string
  cmp_agentId :: string
  cmp_active :: bool
  cmp_triggerCondition :: json_text
  cmp_actions :: json_text
  cmp_runCount :: int
  cmp_lastRunAt :: "int option"

text \<open>
  What the services write through their loggers and to the console, in the order written.
  Only the lines that record an effect of the engine are kept: a score that was persisted, an
  event that reached a handler of the AutomationService, the automations and campaign actions
  (all of them simulated by a log line), the failures that a \<open>catch\<close> swallows, and the
  simulated messages.
\<close>

datatype log_entry =
    ScoringLog string int int
  | TriggerLog AutomationTrigger string
  | AutomationLog string string
  | CampaignLog string AutomationTrigger
  | ActionLog json
  | UnknownActionLog json
  | TriggerFailedLog string
  | CampaignFailedLog string
  | MessageLog string string

datatype error =
    LeadNotFound string
  | PolicyNotFound string
  | JsSyntaxError
  | JsTypeError
  | StoreRecordNotFound
  | StoreValidationError

record store =
  leads :: "Lead list"
  activities :: "Activity list"
  policies :: "Policy list"
  commissions :: "Commission list"
  campaigns :: "Campaign list"
  logs :: "log_entry list"

section \<open>Asynchronous operations: state and exceptions\<close>

text \<open>
  An operation of a service reads and writes the entity store and either returns or throws.
  Nothing is rolled back when it throws: the store it has reached is returned with the error.
\<close>

type_synonym 'a io = "store \<Rightarrow> (error + 'a) \<times> store"

definition ret :: "'a \<Rightarrow> 'a io" where
  "ret x = (\<lambda>s. (Inr x, s))"

definition throw :: "error \<Rightarrow> 'a io" where
  "throw e = (\<lambda>s. (Inl e, s))"

definition thenDo :: "'a io \<Rightarrow> ('a \<Rightarrow> 'b io) \<Rightarrow> 'b io" where
  "thenDo m f = (\<lambda>s. case m s of (Inl e, s') \<Rightarrow> (Inl e, s') | (Inr x, s') \<Rightarrow> f x s')"

definition tryCatch :: "'a io \<Rightarrow> (error \<Rightarrow> 'a io) \<Rightarrow> 'a io" where
  "tryCatch m h = (\<lambda>s. case m s of (Inl e, s') \<Rightarrow> h e s' | (Inr x, s') \<Rightarrow> (Inr x, s'))"

definition lift :: "error + 'a \<Rightarrow> 'a io" where
  "lift r = (\<lambda>s. (r, s))"

definition whenE :: "bool \<Rightarrow> unit io \<Rightarrow> unit io" where
  "whenE b m = (if b then m else ret ())"

definition logE :: "log_entry \<Rightarrow> unit io" where
  "logE e = (\<lambda>s. (Inr (), s\<lparr>logs := logs s @ [e]\<rparr>))"

section \<open>The entity store\<close>

definition findLead :: "store \<Rightarrow> string \<Rightarrow> Lead option" where
  "findLead s i = find (\<lambda>l. lead_id l = i) (leads s)"

definition findPolicy :: "store \<Rightarrow> string \<Rightarrow> Policy option" where
  "findPolicy s i = find (\<lambda>p. pol_id p = i) (policies s)"

definition findCampaign :: "store \<Rightarrow> string \<Rightarrow> Campaign option" where
  "findCampaign s i = find (\<lambda>c. cmp_id c = i) (campaigns s)"

text \<open>
  \<open>prisma.lead.update\<close>: throws when no row has the id; \<open>updatedAt\<close> is refreshed by
  every update.
\<close>

definition leadUpdate :: "string \<Rightarrow> (Lead \<Rightarrow> Lead) \<Rightarrow> int \<Rightarrow> unit io" where
  "leadUpdate i f now = (\<lambda>s.
     case findLead s i of
       None \<Rightarrow> (Inl StoreRecordNotFound, s)
     | Some _ \<Rightarrow>
         (Inr (), s\<lparr>leads :=
            map (\<lambda>l. if lead_id l = i then (f l)\<lparr>lead_updatedAt := now\<rparr> else l) (leads s)\<rparr>))"


definition campaignUpdate :: "string \<Rightarrow> (Campaign \<Rightarrow> Campaign) \<Rightarrow> unit io" where
  "campaignUpdate i f = (\<lambda>s.
     case findCampaign s i of
       None \<Rightarrow> (Inl StoreRecordNotFound, s)
     | Some _ \<Rightarrow>
         (Inr (), s\<lparr>campaigns := map (\<lambda>c. if cmp_id c = i then f c else c) (campaigns s)\<rparr>))"

definition activityCreate :: "Activity \<Rightarrow> unit io" where
  "activityCreate a = (\<lambda>s. (Inr (), s\<lparr>activities := activities s @ [a]\<rparr>))"


text \<open>
  A lead's activities as \<open>include: { activities: { orderBy: { timestamp: 'desc' } } }\<close>
  returns them, newest first; activities of equal timestamp stay in the order of the table.
\<close>

definition leadActivities :: "store \<Rightarrow> string \<Rightarrow> Activity list" where
  "leadActivities s i =
     sort_key (\<lambda>a. - act_timestamp a) (filter (\<lambda>a. act_leadId a = i) (activities s))"

section \<open>ScoringService\<close>

text \<open>The numbers are those of \<open>SCORING_CONFIG\<close>.\<close>

definition BASE_SCORE :: int where "BASE_SCORE = 0"
definition MAX_SCORE :: int where "MAX_SCORE = 100"
definition TIME_DECAY_ENABLED :: bool where "TIME_DECAY_ENABLED = True"
definition TIME_DECAY_DAYS :: "int list" where "TIME_DECAY_DAYS = [30, 60, 90]"
definition TIME_DECAY_AMOUNT :: "int list" where "TIME_DECAY_AMOUNT = [5, 10, 20]"

fun getIntentScore :: "IntentLevel \<Rightarrow> int" where
  "getIntentScore I_HOT = 50"
| "getIntentScore I_WARM = 30"
| "getIntentScore I_COLD = 10"
| "getIntentScore I_NONE = -10"
| "getIntentScore I_UNKNOWN = 0"

fun getStatusScore :: "LeadStatus \<Rightarrow> int" where
  "getStatusScore L_PLACED = 100"
| "getStatusScore L_UNDERWRITING = 75"
| "getStatusScore L_APPLICATION = 60"
| "getStatusScore L_PROPOSAL = 45"
| "getStatusScore L_QUALIFIED = 30"
| "getStatusScore L_ENGAGED = 15"
| "getStatusScore L_CONTACTED = 5"
| "getStatusScore L_NEW = 0"
| "getStatusScore L_UNRESPONSIVE = -10"
| "getStatusScore L_NOT_PLACED = -20"
| "getStatusScore L_LOST = -20"
| "getStatusScore L_NOT_INTERESTED = -30"

fun getActivityTypeScore :: "ActivityType \<Rightarrow> int" where
  "getActivityTypeScore A_MEETING_COMPLETED = 20"
| "getActivityTypeScore A_APPLICATION_SENT = 40"
| "getActivityTypeScore A_PROPOSAL_SENT = 15"
| "getActivityTypeScore A_CALL_INBOUND = 10"
| "getActivityTypeScore A_CALL_OUTBOUND = 5"
| "getActivityTypeScore A_TEXT_RECEIVED = 8"
| "getActivityTypeScore A_TEXT_SENT = 3"
| "getActivityTypeScore A_EMAIL_RECEIVED = 7"
| "getActivityTypeScore A_EMAIL_SENT = 2"
| "getActivityTypeScore A_APPOINTMENT_SET = 15"
| "getActivityTypeScore _ = 2"

fun getOutcomeScore :: "ActivityOutcome \<Rightarrow> int" where
  "getOutcomeScore O_SOLD = 50"
| "getOutcomeScore O_INTERESTED = 15"
| "getOutcomeScore O_POSITIVE = 10"
| "getOutcomeScore O_NEUTRAL = 0"
| "getOutcomeScore O_CALLBACK = 0"
| "getOutcomeScore O_LEFT_MESSAGE = 0"
| "getOutcomeScore O_FOLLOW_UP_SET = 0"
| "getOutcomeScore O_NEGATIVE = -5"
| "getOutcomeScore O_NOT_INTERESTED = -15"
| "getOutcomeScore O_NO_ANSWER = -2"

text \<open>The \<open>for ... of\<close> loops of the two sums, with the running score as accumulator.\<close>

fun activityLoop :: "Activity list \<Rightarrow> int \<Rightarrow> int" where
  "activityLoop [] score = score"
| "activityLoop (a # as) score = activityLoop as (score + getActivityTypeScore (act_type a))"

definition calculateActivityScore :: "Activity list \<Rightarrow> int" where
  "calculateActivityScore acts =
     (if acts = [] then 0
      else let recentActivities = take 10 acts
           in min 40 (activityLoop recentActivities 0))"

fun outcomeLoop :: "Activity list \<Rightarrow> int \<Rightarrow> int" where
  "outcomeLoop [] score = score"
| "outcomeLoop (a # as) score =
     outcomeLoop as (case act_outcome a of
                       Some outcome \<Rightarrow> score + getOutcomeScore outcome
                     | None \<Rightarrow> score)"

definition calculateOutcomeScore :: "Activity list \<Rightarrow> int" where
  "calculateOutcomeScore acts =
     (if acts = [] then 0
      else let recentActivities = take 5 acts
           in min 30 (outcomeLoop recentActivities 0))"

text \<open>
  \<open>Math.floor((Date.now() - new Date(lastActivity).getTime()) / (1000 * 60 * 60 * 24))\<close>;
  \<open>div\<close> on \<open>int\<close> rounds down, as \<open>Math.floor\<close> does.
\<close>

definition daysSinceActivity :: "Activity list \<Rightarrow> int \<Rightarrow> int \<Rightarrow> int" where
  "daysSinceActivity acts lastUpdated now =
     (let lastActivity = (case acts of [] \<Rightarrow> lastUpdated | a # _ \<Rightarrow> act_timestamp a)
      in (now - lastActivity) div (1000 * 60 * 60 * 24))"

function decayLoop :: "int \<Rightarrow> nat \<Rightarrow> int \<Rightarrow> int" where
  "decayLoop days i decay =
     (if i < length TIME_DECAY_DAYS
      then decayLoop days (Suc i)
             (if days \<ge> TIME_DECAY_DAYS ! i then TIME_DECAY_AMOUNT ! i else decay)
      else decay)"
  by pat_completeness auto
termination
  by (relation "measure (\<lambda>(days, i, decay). length TIME_DECAY_DAYS - i)") auto

declare decayLoop.simps [simp del]

definition calculateTimeDecay :: "Activity list \<Rightarrow> int \<Rightarrow> int \<Rightarrow> int" where
  "calculateTimeDecay acts lastUpdated now =
     (if \<not> TIME_DECAY_ENABLED then 0
      else decayLoop (daysSinceActivity acts lastUpdated now) 0 0)"

record ScoreComponents =
  baseScore :: int
  intentScore :: int
  statusScore :: int
  activityScore :: int
  outcomeScore :: int
  timeDecay :: int

record LeadScoreBreakdown =
  currentScore :: int
  previousScore :: int
  change :: int
  breakdown :: ScoreComponents

text \<open>
  \<open>calculateLeadScore\<close> reads the lead with its activities and writes nothing. The
  \<open>reason\<close> string of the breakdown, a rendering of the components, is left out.
\<close>

definition calculateLeadScore :: "string \<Rightarrow> int \<Rightarrow> store \<Rightarrow> error + LeadScoreBreakdown" where
  "calculateLeadScore leadId now s =
     (case findLead s leadId of
        None \<Rightarrow> Inl (LeadNotFound leadId)
      | Some lead \<Rightarrow>
          let acts = leadActivities s leadId;
              previous = lead_score lead;
              intent = getIntentScore (lead_intentLevel lead);
              status = getStatusScore (lead_status lead);
              activity = calculateActivityScore acts;
              outcome = calculateOutcomeScore acts;
              decay = calculateTimeDecay acts (lead_updatedAt lead) now;
              newScore = BASE_SCORE + intent + status + activity + outcome - decay;
              newScore = max 0 (min MAX_SCORE newScore)
          in Inr \<lparr>currentScore = newScore, previousScore = previous,
                  change = newScore - previous,
                  breakdown = \<lparr>baseScore = BASE_SCORE, intentScore = intent,
                               statusScore = status, activityScore = activity,
                               outcomeScore = outcome, timeDecay = decay\<rparr>\<rparr>)"

definition updateLeadScore :: "string \<Rightarrow> int \<Rightarrow> LeadScoreBreakdown io" where
  "updateLeadScore leadId now =
     thenDo (\<lambda>s. lift (calculateLeadScore leadId now s) s) (\<lambda>b.
     thenDo (leadUpdate leadId (\<lambda>l. l\<lparr>lead_score := currentScore b\<rparr>) now) (\<lambda>_.
     thenDo (logE (ScoringLog leadId (previousScore b) (currentScore b))) (\<lambda>_.
     ret b)))"


section \<open>AutomationService\<close>

record TriggerContext =
  ctx_trigger :: AutomationTrigger
  ctx_agentId :: string
  ctx_leadId :: "string option"
  ctx_policyId :: "string option"

definition JSON_parse :: "json_text \<Rightarrow> error + json" where
  "JSON_parse t = (case t of None \<Rightarrow> Inl JsSyntaxError | Some j \<Rightarrow> Inr j)"

text \<open>
  Reading one of the properties \<open>trigger\<close>, \<open>type\<close> and \<open>status\<close> of a parsed value:
  a TypeError on \<open>null\<close>, the property of an object, \<open>undefined\<close> (here \<open>None\<close>) on
  a boolean, a number, a string or an array.
\<close>

fun getProp :: "json \<Rightarrow> string \<Rightarrow> error + json option" where
  "getProp JNull k = Inl JsTypeError"
| "getProp (JObj kvs) k = Inr (map_of kvs k)"
| "getProp _ k = Inr None"

text \<open>The truthiness of a value in a JavaScript condition.\<close>

fun truthy :: "json option \<Rightarrow> bool" where
  "truthy None = False"
| "truthy (Some JNull) = False"
| "truthy (Some (JBool b)) = b"
| "truthy (Some (JNum n)) = (n \<noteq> 0)"
| "truthy (Some (JStr s)) = (s \<noteq> [])"
| "truthy (Some (JArr xs)) = True"
| "truthy (Some (JObj kvs)) = True"

text \<open>What \<open>for (const action of actions)\<close> iterates over.\<close>

fun iterate :: "json \<Rightarrow> error + json list" where
  "iterate (JArr xs) = Inr xs"
| "iterate (JStr s) = Inr (map (\<lambda>c. JStr [c]) s)"
| "iterate _ = Inl JsTypeError"

definition evaluateCampaignTrigger :: "string \<Rightarrow> TriggerContext \<Rightarrow> bool io" where
  "evaluateCampaignTrigger campaignId ctx = (\<lambda>s.
     case findCampaign s campaignId of
       None \<Rightarrow> ret False s
     | Some campaign \<Rightarrow>
         tryCatch
           (thenDo (lift (JSON_parse (cmp_triggerCondition campaign))) (\<lambda>triggerCondition.
            thenDo (lift (getProp triggerCondition ''trigger'')) (\<lambda>t.
            if truthy t \<and> t \<noteq> Some (JStr (triggerValue (ctx_trigger ctx)))
            then ret False
            else ret True)))
           (\<lambda>e. thenDo (logE (TriggerFailedLog campaignId)) (\<lambda>_. ret False)) s)"

fun parseLeadStatus :: "string \<Rightarrow> LeadStatus option" where
  "parseLeadStatus x =
     (if x = ''NEW'' then Some L_NEW
      else if x = ''CONTACTED'' then Some L_CONTACTED
      else if x = ''ENGAGED'' then Some L_ENGAGED
      else if x = ''QUALIFIED'' then Some L_QUALIFIED
      else if x = ''PROPOSAL'' then Some L_PROPOSAL
      else if x = ''APPLICATION'' then Some L_APPLICATION
      else if x = ''UNDERWRITING'' then Some L_UNDERWRITING
      else if x = ''PLACED'' then Some L_PLACED
      else if x = ''NOT_PLACED'' then Some L_NOT_PLACED
      else if x = ''NOT_INTERESTED'' then Some L_NOT_INTERESTED
      else if x = ''LOST'' then Some L_LOST
      else if x = ''UNRESPONSIVE'' then Some L_UNRESPONSIVE
      else None)"

text \<open>
  A template literal converts the interpolated value to a string. Of the values that come out
  of \<open>JSON.parse\<close>, the conversion throws a TypeError on an object that has a property
  \<open>toString\<close> (the property hides the method of the prototype and cannot be called, and
  \<open>valueOf\<close> does not give a primitive either), and on an array one of whose elements, other
  than \<open>null\<close>, does (the conversion of an array joins the conversions of its elements, with
  the empty string for \<open>null\<close>). \<open>undefined\<close> is converted to a string without an exception.
\<close>

fun toStringFails :: "json \<Rightarrow> bool" where
  "toStringFails (JArr xs) = list_ex (\<lambda>x. x \<noteq> JNull \<and> toStringFails x) xs"
| "toStringFails (JObj kvs) = (map_of kvs ''toString'' \<noteq> None)"
| "toStringFails _ = False"

definition interpolate :: "json option \<Rightarrow> unit io" where
  "interpolate v =
     (case v of
        None \<Rightarrow> ret ()
      | Some j \<Rightarrow> if toStringFails j then throw JsTypeError else ret ())"

text \<open>
  \<open>prisma.lead.update({ where: { id }, data: { status: action.status } })\<close> with a status
  that comes out of a campaign's JSON. The client validates the data before it looks for the
  row: it accepts \<open>undefined\<close> (the field is left out of the update), a string that is a
  member of LeadStatus, and the update operation \<open>{ "set": <member of LeadStatus> }\<close> with
  no other property; it rejects everything else. An update whose data is empty writes
  nothing (\<open>updatedAt\<close> stays), but still throws when no row has the id.
\<close>

fun statusOfJson :: "json option \<Rightarrow> error + LeadStatus option" where
  "statusOfJson None = Inr None"
| "statusOfJson (Some (JStr x)) =
     (case parseLeadStatus x of None \<Rightarrow> Inl StoreValidationError | Some st \<Rightarrow> Inr (Some st))"
| "statusOfJson (Some (JObj kvs)) =
     (if list_all (\<lambda>kv. fst kv = ''set'') kvs then
        (case map_of kvs ''set'' of
           Some (JStr x) \<Rightarrow>
             (case parseLeadStatus x of
                None \<Rightarrow> Inl StoreValidationError
              | Some st \<Rightarrow> Inr (Some st))
         | _ \<Rightarrow> Inl StoreValidationError)
      else Inl StoreValidationError)"
| "statusOfJson (Some _) = Inl StoreValidationError"

definition leadUpdateStatus :: "string \<Rightarrow> json option \<Rightarrow> int \<Rightarrow> unit io" where
  "leadUpdateStatus i v now =
     thenDo (lift (statusOfJson v)) (\<lambda>st.
     case st of
       None \<Rightarrow> (\<lambda>s. case findLead s i of
                        None \<Rightarrow> (Inl StoreRecordNotFound, s)
                      | Some _ \<Rightarrow> (Inr (), s))
     | Some x \<Rightarrow> leadUpdate i (\<lambda>l. l\<lparr>lead_status := x\<rparr>) now)"

definition executeAction :: "json \<Rightarrow> TriggerContext \<Rightarrow> int \<Rightarrow> unit io" where
  "executeAction action ctx now =
     thenDo (lift (getProp action ''type'')) (\<lambda>t.
       if t = Some (JStr ''send_email'') then logE (ActionLog action)
       else if t = Some (JStr ''send_sms'') then logE (ActionLog action)
       else if t = Some (JStr ''update_lead_status'') then
         (case ctx_leadId ctx of
            None \<Rightarrow> ret ()
          | Some leadId \<Rightarrow>
              if leadId = [] then ret ()
              else thenDo (lift (getProp action ''status'')) (\<lambda>status.
                   thenDo (leadUpdateStatus leadId status now) (\<lambda>_.
                   thenDo (interpolate status) (\<lambda>_.
                   logE (ActionLog action)))))
       else if t = Some (JStr ''create_task'') then logE (ActionLog action)
       else if t = Some (JStr ''log_note'') then logE (ActionLog action)
       else if t = Some (JStr ''webhook'') then logE (ActionLog action)
       else thenDo (interpolate t) (\<lambda>_. logE (UnknownActionLog action)))"

fun actionLoop :: "json list \<Rightarrow> TriggerContext \<Rightarrow> int \<Rightarrow> unit io" where
  "actionLoop [] ctx now = ret ()"
| "actionLoop (action # actions) ctx now =
     thenDo (executeAction action ctx now) (\<lambda>_. actionLoop actions ctx now)"

definition executeCampaign :: "string \<Rightarrow> TriggerContext \<Rightarrow> int \<Rightarrow> unit io" where
  "executeCampaign campaignId ctx now = (\<lambda>s.
     case findCampaign s campaignId of
       None \<Rightarrow> ret () s
     | Some campaign \<Rightarrow>
         thenDo (logE (CampaignLog campaignId (ctx_trigger ctx))) (\<lambda>_.
         tryCatch
           (thenDo (lift (JSON_parse (cmp_actions campaign))) (\<lambda>actions.
            thenDo (lift (iterate actions)) (\<lambda>as.
            thenDo (actionLoop as ctx now) (\<lambda>_.
            campaignUpdate campaignId
              (\<lambda>c. c\<lparr>cmp_runCount := cmp_runCount c + 1, cmp_lastRunAt := Some now\<rparr>)))))
           (\<lambda>e. logE (CampaignFailedLog campaignId))) s)"

fun campaignLoop :: "Campaign list \<Rightarrow> TriggerContext \<Rightarrow> int \<Rightarrow> unit io" where
  "campaignLoop [] ctx now = ret ()"
| "campaignLoop (campaign # rest) ctx now =
     thenDo (evaluateCampaignTrigger (cmp_id campaign) ctx) (\<lambda>shouldTrigger.
     thenDo (whenE shouldTrigger (executeCampaign (cmp_id campaign) ctx now)) (\<lambda>_.
     campaignLoop rest ctx now))"

definition checkCampaigns :: "TriggerContext \<Rightarrow> int \<Rightarrow> unit io" where
  "checkCampaigns ctx now = (\<lambda>s.
     campaignLoop
       (filter (\<lambda>c. cmp_agentId c = ctx_agentId ctx \<and> cmp_active c) (campaigns s)) ctx now s)"

definition handleStatusChangeAutomations :: "Lead \<Rightarrow> LeadStatus \<Rightarrow> LeadStatus \<Rightarrow> unit io" where
  "handleStatusChangeAutomations lead oldStatus newStatus =
     thenDo (whenE (newStatus = L_QUALIFIED \<and> oldStatus \<noteq> L_QUALIFIED)
               (logE (AutomationLog ''Lead qualified - scheduling follow-up'' (lead_id lead)))) (\<lambda>_.
     whenE (newStatus = L_UNDERWRITING \<and> oldStatus \<noteq> L_UNDERWRITING)
       (logE (AutomationLog ''Application in underwriting'' (lead_id lead))))"

definition handleLeadStatusChanged :: "string \<Rightarrow> LeadStatus \<Rightarrow> LeadStatus \<Rightarrow> int \<Rightarrow> unit io" where
  "handleLeadStatusChanged leadId oldStatus newStatus now = (\<lambda>s.
     case findLead s leadId of
       None \<Rightarrow> ret () s
     | Some lead \<Rightarrow>
         thenDo (logE (TriggerLog LEAD_STATUS_CHANGED leadId)) (\<lambda>_.
         thenDo (handleStatusChangeAutomations lead oldStatus newStatus) (\<lambda>_.
         checkCampaigns
           \<lparr>ctx_trigger = LEAD_STATUS_CHANGED, ctx_agentId = lead_agentId lead,
            ctx_leadId = Some leadId, ctx_policyId = None\<rparr> now)) s)"

definition handleActivityAutomations :: "Lead \<Rightarrow> ActivityType \<Rightarrow> ActivityOutcome option \<Rightarrow> unit io" where
  "handleActivityAutomations lead activityType outcome =
     thenDo (whenE (outcome = Some O_LEFT_MESSAGE \<or> outcome = Some O_NO_ANSWER)
               (logE (AutomationLog ''Follow-up scheduled (no answer)'' (lead_id lead)))) (\<lambda>_.
     thenDo (whenE (outcome = Some O_INTERESTED \<or> outcome = Some O_POSITIVE)
               (logE (AutomationLog ''Hot lead detected - prioritize'' (lead_id lead)))) (\<lambda>_.
     whenE (outcome = Some O_NOT_INTERESTED)
       (logE (AutomationLog ''Lead marked as not interested'' (lead_id lead)))))"

definition handleActivityLogged :: "string \<Rightarrow> ActivityType \<Rightarrow> ActivityOutcome option \<Rightarrow> int \<Rightarrow> unit io" where
  "handleActivityLogged leadId activityType outcome now = (\<lambda>s.
     case findLead s leadId of
       None \<Rightarrow> ret () s
     | Some lead \<Rightarrow>
         thenDo (logE (TriggerLog ACTIVITY_LOGGED leadId)) (\<lambda>_.
         thenDo (handleActivityAutomations lead activityType outcome) (\<lambda>_.
         checkCampaigns
           \<lparr>ctx_trigger = ACTIVITY_LOGGED, ctx_agentId = lead_agentId lead,
            ctx_leadId = Some leadId, ctx_policyId = None\<rparr> now)) s)"



definition handleScoreAutomations :: "Lead \<Rightarrow> int \<Rightarrow> unit io" where
  "handleScoreAutomations lead newScore =
     thenDo (whenE (newScore \<ge> 70)
               (logE (AutomationLog ''HOT LEAD ALERT - Immediate follow-up recommended'' (lead_id lead)))) (\<lambda>_.
     thenDo (whenE (newScore \<ge> 40 \<and> newScore < 70)
               (logE (AutomationLog ''Lead warming up - engage soon'' (lead_id lead)))) (\<lambda>_.
     whenE (newScore < 20)
       (logE (AutomationLog ''Lead cooling - consider re-engagement campaign'' (lead_id lead)))))"

definition handleScoreChanged :: "string \<Rightarrow> int \<Rightarrow> int \<Rightarrow> int \<Rightarrow> unit io" where
  "handleScoreChanged leadId oldScore newScore now = (\<lambda>s.
     case findLead s leadId of
       None \<Rightarrow> ret () s
     | Some lead \<Rightarrow>
         let threshold = 20 in
         if \<bar>newScore - oldScore\<bar> < threshold then ret () s
         else
           thenDo (logE (TriggerLog SCORE_CHANGED leadId)) (\<lambda>_.
           thenDo (handleScoreAutomations lead newScore) (\<lambda>_.
           checkCampaigns
             \<lparr>ctx_trigger = SCORE_CHANGED, ctx_agentId = lead_agentId lead,
              ctx_leadId = Some leadId, ctx_policyId = None\<rparr> now)) s)"

section \<open>ActivityService\<close>

record CreateActivityParams =
  cap_agentId :: string
  cap_leadId :: string
  cap_type :: ActivityType
  cap_outcome :: "ActivityOutcome option"

text \<open>The \<open>switch\<close> of \<open>autoUpdateLeadStatus\<close> that determines \<open>newStatus\<close>.\<close>

definition newStatusFor :: "LeadStatus \<Rightarrow> ActivityType \<Rightarrow> ActivityOutcome option \<Rightarrow> LeadStatus option" where
  "newStatusFor status activityType outcome =
     (if activityType = A_CALL_OUTBOUND \<or> activityType = A_CALL_INBOUND then
        (if status = L_NEW then Some L_CONTACTED else None)
      else if activityType = A_MEETING_SCHEDULED \<or> activityType = A_APPOINTMENT_SET then
        (if status \<in> set [L_NEW, L_CONTACTED] then Some L_ENGAGED else None)
      else if activityType = A_MEETING_COMPLETED then
        (if outcome = Some O_INTERESTED \<or> outcome = Some O_POSITIVE then Some L_QUALIFIED
         else if outcome = Some O_NOT_INTERESTED then Some L_NOT_INTERESTED
         else None)
      else if activityType = A_PROPOSAL_SENT then
        (if status \<in> set [L_QUALIFIED, L_ENGAGED] then Some L_PROPOSAL else None)
      else if activityType = A_APPLICATION_SENT then
        (if status \<in> set [L_PROPOSAL, L_QUALIFIED] then Some L_APPLICATION else None)
      else None)"

definition autoUpdateLeadStatus :: "string \<Rightarrow> ActivityType \<Rightarrow> ActivityOutcome option \<Rightarrow> int \<Rightarrow> unit io" where
  "autoUpdateLeadStatus leadId activityType outcome now = (\<lambda>s.
     case findLead s leadId of
       None \<Rightarrow> ret () s
     | Some lead \<Rightarrow>
         (case newStatusFor (lead_status lead) activityType outcome of
            None \<Rightarrow> ret () s
          | Some newStatus \<Rightarrow>
              if newStatus \<noteq> lead_status lead then
                thenDo (leadUpdate leadId (\<lambda>l. l\<lparr>lead_status := newStatus\<rparr>) now) (\<lambda>_.
                handleLeadStatusChanged leadId (lead_status lead) newStatus now) s
              else ret () s))"

definition logActivity :: "CreateActivityParams \<Rightarrow> int \<Rightarrow> unit io" where
  "logActivity params now = (\<lambda>s.
     case findLead s (cap_leadId params) of
       None \<Rightarrow> throw (LeadNotFound (cap_leadId params)) s
     | Some lead \<Rightarrow>
         thenDo (activityCreate
                   \<lparr>act_leadId = cap_leadId params, act_agentId = cap_agentId params,
                    act_type = cap_type params, act_outcome = cap_outcome params,
                    act_timestamp = now\<rparr>) (\<lambda>_.
         thenDo (updateLeadScore (cap_leadId params) now) (\<lambda>_.
         thenDo (handleActivityLogged (cap_leadId params) (cap_type params) (cap_outcome params) now) (\<lambda>_.
         autoUpdateLeadStatus (cap_leadId params) (cap_type params) (cap_outcome params) now))) s)"

section \<open>CommissionService\<close>









section \<open>PolicyService\<close>







section \<open>LeadService\<close>




section \<open>The outcome of one campaign, as a function of that campaign\<close>

text \<open>
  The vocabulary of the statements about the dispatcher. \<open>ids\<close> are the ids of the leads
  of the store; no operation of the engine adds or removes a lead.

  \<open>triggerFails\<close>: reading the trigger of the stored condition throws (the text does not
  parse, or it is the literal \<open>null\<close>). \<open>triggerMatches\<close>: the condition has no truthy
  \<open>trigger\<close>, or its \<open>trigger\<close> is the kind of the event.
\<close>

definition triggerFails :: "Campaign \<Rightarrow> bool" where
  "triggerFails c =
     (case cmp_triggerCondition c of
        None \<Rightarrow> True
      | Some j \<Rightarrow> (case getProp j ''trigger'' of Inl e \<Rightarrow> True | Inr t \<Rightarrow> False))"

definition triggerMatches :: "TriggerContext \<Rightarrow> Campaign \<Rightarrow> bool" where
  "triggerMatches ctx c =
     (case cmp_triggerCondition c of
        None \<Rightarrow> False
      | Some j \<Rightarrow>
          (case getProp j ''trigger'' of
             Inl e \<Rightarrow> False
           | Inr t \<Rightarrow> \<not> (truthy t \<and> t \<noteq> Some (JStr (triggerValue (ctx_trigger ctx))))))"

text \<open>
  \<open>actionRuns\<close>: the action executes without an exception. An action that is \<open>null\<close>
  throws; an \<open>update_lead_status\<close> for the lead of the event throws when the client rejects
  its status or when the lead is not in the store; an action whose type is none of the six
  throws when the type cannot be converted to a string for the warning; every other action
  only writes a log line. \<open>actionTrace\<close>: the line an action writes when it runs.
  \<open>statusSet\<close>: the status an action stores in the lead of the event when it runs.
\<close>

definition actionRuns :: "string list \<Rightarrow> TriggerContext \<Rightarrow> json \<Rightarrow> bool" where
  "actionRuns ids ctx a =
     (case getProp a ''type'' of
        Inl e \<Rightarrow> False
      | Inr t \<Rightarrow>
          if t = Some (JStr ''update_lead_status'') then
            (case ctx_leadId ctx of
               None \<Rightarrow> True
             | Some leadId \<Rightarrow>
                 if leadId = [] then True
                 else (case getProp a ''status'' of
                         Inl e \<Rightarrow> False
                       | Inr st \<Rightarrow>
                           (case statusOfJson st of
                              Inl e \<Rightarrow> False
                            | Inr v \<Rightarrow> leadId \<in> set ids)))
          else if t \<in> set [Some (JStr ''send_email''), Some (JStr ''send_sms''),
                            Some (JStr ''create_task''), Some (JStr ''log_note''),
                            Some (JStr ''webhook'')]
          then True
          else (case t of None \<Rightarrow> True | Some j \<Rightarrow> \<not> toStringFails j))"

definition actionTrace :: "TriggerContext \<Rightarrow> json \<Rightarrow> log_entry list" where
  "actionTrace ctx a =
     (case getProp a ''type'' of
        Inl e \<Rightarrow> []
      | Inr t \<Rightarrow>
          if t = Some (JStr ''update_lead_status'') then
            (case ctx_leadId ctx of
               None \<Rightarrow> []
             | Some leadId \<Rightarrow> if leadId = [] then [] else [ActionLog a])
          else if t \<in> set [Some (JStr ''send_email''), Some (JStr ''send_sms''),
                            Some (JStr ''create_task''), Some (JStr ''log_note''),
                            Some (JStr ''webhook'')]
          then [ActionLog a]
          else [UnknownActionLog a])"

definition statusSet :: "TriggerContext \<Rightarrow> json \<Rightarrow> LeadStatus option" where
  "statusSet ctx a =
     (case getProp a ''type'' of
        Inl e \<Rightarrow> None
      | Inr t \<Rightarrow>
          if t = Some (JStr ''update_lead_status'') then
            (case ctx_leadId ctx of
               None \<Rightarrow> None
             | Some leadId \<Rightarrow>
                 if leadId = [] then None
                 else (case getProp a ''status'' of
                         Inl e \<Rightarrow> None
                       | Inr st \<Rightarrow> (case statusOfJson st of Inl e \<Rightarrow> None | Inr v \<Rightarrow> v)))
          else None)"

text \<open>The lines of the actions that run: all of them up to the first that throws.\<close>

fun actionsTrace :: "string list \<Rightarrow> TriggerContext \<Rightarrow> json list \<Rightarrow> log_entry list" where
  "actionsTrace ids ctx [] = []"
| "actionsTrace ids ctx (a # as) =
     (if actionRuns ids ctx a then actionTrace ctx a @ actionsTrace ids ctx as else [])"

text \<open>
  \<open>actionsComplete\<close>: the stored actions parse, can be iterated, and every one of them
  runs. \<open>executionTrace\<close>: what the execution of a campaign writes. \<open>campaignTrace\<close>:
  everything the dispatch of one event writes for one campaign. \<open>campaignAfter\<close>: the
  campaign after the dispatch; \<open>inScope\<close>: the campaigns the dispatch loads.
\<close>

definition actionsComplete :: "string list \<Rightarrow> TriggerContext \<Rightarrow> Campaign \<Rightarrow> bool" where
  "actionsComplete ids ctx c =
     (case cmp_actions c of
        None \<Rightarrow> False
      | Some j \<Rightarrow>
          (case iterate j of Inl e \<Rightarrow> False | Inr as \<Rightarrow> list_all (actionRuns ids ctx) as))"

definition executionTrace :: "string list \<Rightarrow> TriggerContext \<Rightarrow> Campaign \<Rightarrow> log_entry list" where
  "executionTrace ids ctx c =
     CampaignLog (cmp_id c) (ctx_trigger ctx) #
     (case cmp_actions c of
        None \<Rightarrow> [CampaignFailedLog (cmp_id c)]
      | Some j \<Rightarrow>
          (case iterate j of
             Inl e \<Rightarrow> [CampaignFailedLog (cmp_id c)]
           | Inr as \<Rightarrow>
               actionsTrace ids ctx as @
               (if list_all (actionRuns ids ctx) as then []
                else [CampaignFailedLog (cmp_id c)])))"

definition campaignTrace :: "string list \<Rightarrow> TriggerContext \<Rightarrow> Campaign \<Rightarrow> log_entry list" where
  "campaignTrace ids ctx c =
     (if triggerFails c then [TriggerFailedLog (cmp_id c)]
      else if \<not> triggerMatches ctx c then []
      else executionTrace ids ctx c)"

definition ranOnce :: "int \<Rightarrow> Campaign \<Rightarrow> Campaign" where
  "ranOnce now c = c\<lparr>cmp_runCount := cmp_runCount c + 1, cmp_lastRunAt := Some now\<rparr>"

definition campaignAfter :: "int \<Rightarrow> string list \<Rightarrow> TriggerContext \<Rightarrow> Campaign \<Rightarrow> Campaign" where
  "campaignAfter now ids ctx c =
     (if triggerMatches ctx c \<and> actionsComplete ids ctx c then ranOnce now c else c)"

text \<open>
  \<open>statusesSet\<close>: the statuses the execution of a campaign stores in the lead of the event,
  in order: those of its actions that run, which are all of them up to the first that throws.
  \<open>leadAfter\<close>: a lead after these statuses have been stored one after the other: the lead of
  the event has the last of them and is marked as updated; every other lead is as it was.
\<close>

definition statusesSet :: "string list \<Rightarrow> TriggerContext \<Rightarrow> Campaign \<Rightarrow> LeadStatus list" where
  "statusesSet ids ctx c =
     (if triggerMatches ctx c then
        (case cmp_actions c of
           None \<Rightarrow> []
         | Some j \<Rightarrow>
             (case iterate j of
                Inl e \<Rightarrow> []
              | Inr as \<Rightarrow> List.map_filter (statusSet ctx) (takeWhile (actionRuns ids ctx) as)))
      else [])"

definition leadAfter :: "TriggerContext \<Rightarrow> int \<Rightarrow> LeadStatus list \<Rightarrow> Lead \<Rightarrow> Lead" where
  "leadAfter ctx now sts l =
     (if sts = [] \<or> ctx_leadId ctx \<noteq> Some (lead_id l) then l
      else l\<lparr>lead_status := last sts, lead_updatedAt := now\<rparr>)"

definition inScope :: "TriggerContext \<Rightarrow> Campaign \<Rightarrow> bool" where
  "inScope ctx c = (cmp_agentId c = ctx_agentId ctx \<and> cmp_active c)"

text \<open>
  \<open>sameLedger\<close>: two stores with the same policies, commissions and activities, and leads
  of the same ids in the same order.
\<close>

definition sameLedger :: "store \<Rightarrow> store \<Rightarrow> bool" where
  "sameLedger s s' \<longleftrightarrow>
     policies s' = policies s \<and> commissions s' = commissions s \<and>
     activities s' = activities s \<and> map lead_id (leads s') = map lead_id (leads s)"

text \<open>
  \<open>dispatchEntry\<close>: the lines the dispatch of an event to the campaigns writes.
  \<open>sameBooks\<close>: two stores with the same policies and commissions, and leads of the same
  ids in the same order.
\<close>

fun dispatchEntry :: "log_entry \<Rightarrow> bool" where
  "dispatchEntry (CampaignLog i t) = True"
| "dispatchEntry (ActionLog a) = True"
| "dispatchEntry (UnknownActionLog a) = True"
| "dispatchEntry (TriggerFailedLog i) = True"
| "dispatchEntry (CampaignFailedLog i) = True"
| "dispatchEntry _ = False"


text \<open>
  The event \<open>handleScoreChanged\<close> dispatches for a lead, and the lines
  \<open>handleScoreAutomations\<close> writes for a new score.
\<close>

definition scoreChangedEvent :: "Lead \<Rightarrow> TriggerContext" where
  "scoreChangedEvent lead =
     \<lparr>ctx_trigger = SCORE_CHANGED, ctx_agentId = lead_agentId lead,
      ctx_leadId = Some (lead_id lead), ctx_policyId = None\<rparr>"

definition scoreAutomationLogs :: "Lead \<Rightarrow> int \<Rightarrow> log_entry list" where
  "scoreAutomationLogs lead n =
     (if n \<ge> 70 then [AutomationLog ''HOT LEAD ALERT - Immediate follow-up recommended'' (lead_id lead)] else [])
     @ (if n \<ge> 40 \<and> n < 70 then [AutomationLog ''Lead warming up - engage soon'' (lead_id lead)] else [])
     @ (if n < 20 then [AutomationLog ''Lead cooling - consider re-engagement campaign'' (lead_id lead)] else [])"



section \<open>The outcome component as the specification words it\<close>

text \<open>
  "The sum of the per-outcome modifiers over only the 5 most recent activities that have an
  outcome, capped at +30": the activities that have an outcome are selected first, the five
  most recent of them are summed.
\<close>

definition spec_outcomeScore :: "Activity list \<Rightarrow> int" where
  "spec_outcomeScore acts =
     min 30 (sum_list (map getOutcomeScore (take 5 (List.map_filter act_outcome acts))))"

section \<open>Example data\<close>

definition exActivity :: "ActivityType \<Rightarrow> ActivityOutcome option \<Rightarrow> int \<Rightarrow> Activity" where
  "exActivity t oc ts =
     \<lparr>act_leadId = ''lead-1'', act_agentId = ''1'', act_type = t, act_outcome = oc,
      act_timestamp = ts\<rparr>"

definition exLead :: "LeadStatus \<Rightarrow> Lead" where
  "exLead st =
     \<lparr>lead_id = ''lead-1'', lead_agentId = ''1'', lead_email = None,
      lead_phone = ''555-1234'', lead_status = st, lead_intentLevel = I_HOT,
      lead_score = 0, lead_updatedAt = 0\<rparr>"

definition exStore :: "Lead list \<Rightarrow> Activity list \<Rightarrow> store" where
  "exStore ls as =
     \<lparr>leads = ls, activities = as, policies = [], commissions = [], campaigns = [],
      logs = []\<rparr>"

definition exCampaign :: "string \<Rightarrow> json_text \<Rightarrow> json_text \<Rightarrow> Campaign" where
  "exCampaign i t a =
     \<lparr>cmp_id = i, cmp_agentId = ''1'', cmp_active = True, cmp_triggerCondition = t,
      cmp_actions = a, cmp_runCount = 0, cmp_lastRunAt = None\<rparr>"

definition triggerOn :: "AutomationTrigger \<Rightarrow> json_text" where
  "triggerOn t = Some (JObj [(''trigger'', JStr (triggerValue t))])"

definition noteAction :: "string \<Rightarrow> json" where
  "noteAction n = JObj [(''type'', JStr ''log_note''), (''note'', JStr n)]"

definition statusAction :: "string \<Rightarrow> json" where
  "statusAction st = JObj [(''type'', JStr ''update_lead_status''), (''status'', JStr st)]"

definition exStoreWith :: "Campaign list \<Rightarrow> store" where
  "exStoreWith cs = (exStore [exLead L_NEW] [])\<lparr>campaigns := cs\<rparr>"






section \<open>Scoring: the components\<close>

lemma decayLoop_thresholds:
  "decayLoop d 0 0 = (if 90 \<le> d then 20 else if 60 \<le> d then 10 else if 30 \<le> d then 5 else 0)"
proof -
  have len: "length TIME_DECAY_DAYS = Suc (Suc (Suc 0))"
    by (simp add: TIME_DECAY_DAYS_def)
  have 3: "decayLoop d (Suc (Suc (Suc 0))) x = x" for x
    by (subst decayLoop.simps) (simp add: len)
  have 2: "decayLoop d (Suc (Suc 0)) x = (if 90 \<le> d then 20 else x)" for x
    by (subst decayLoop.simps) (simp add: len 3 TIME_DECAY_DAYS_def TIME_DECAY_AMOUNT_def)
  have 1: "decayLoop d (Suc 0) x = (if 90 \<le> d then 20 else if 60 \<le> d then 10 else x)" for x
    by (subst decayLoop.simps) (simp add: len 2 TIME_DECAY_DAYS_def TIME_DECAY_AMOUNT_def)
  show ?thesis
    by (subst decayLoop.simps) (simp add: len 1 TIME_DECAY_DAYS_def TIME_DECAY_AMOUNT_def)
qed

lemma calculateTimeDecay_eq:
  "calculateTimeDecay acts u now =
     (let d = daysSinceActivity acts u now
      in if 90 \<le> d then 20 else if 60 \<le> d then 10 else if 30 \<le> d then 5 else 0)"
  by (simp add: calculateTimeDecay_def TIME_DECAY_ENABLED_def decayLoop_thresholds Let_def)

text \<open>
  The activities of a lead come newest first: the first of them is the most recent one.
\<close>

lemma newest_first:
  assumes "xs \<noteq> []"
  shows "(case sort_key (\<lambda>a. - act_timestamp a) xs of [] \<Rightarrow> u | a # _ \<Rightarrow> act_timestamp a)
         = Max (act_timestamp ` set xs)"
proof -
  define ys where "ys = sort_key (\<lambda>a. - act_timestamp a) xs"
  have s: "set ys = set xs" and o: "sorted (map (\<lambda>a. - act_timestamp a) ys)"
    by (simp_all add: ys_def)
  from assms s obtain y zs where c: "ys = y # zs"
    by (cases ys) auto
  have "act_timestamp z \<le> act_timestamp y" if "z \<in> set xs" for z
    using o that s unfolding c by auto
  moreover have "y \<in> set xs"
    using s c by auto
  ultimately have "Max (act_timestamp ` set xs) = act_timestamp y"
    by (intro Max_eqI) auto
  then show ?thesis
    unfolding ys_def[symmetric] c by simp
qed

lemma leadActivities_newest:
  "(case leadActivities s i of [] \<Rightarrow> u | a # _ \<Rightarrow> act_timestamp a)
     = (if filter (\<lambda>a. act_leadId a = i) (activities s) = [] then u
        else Max (act_timestamp ` set (filter (\<lambda>a. act_leadId a = i) (activities s))))"
proof (cases "filter (\<lambda>a. act_leadId a = i) (activities s) = []")
  case True
  then show ?thesis by (simp add: leadActivities_def)
next
  case False
  from newest_first[OF False, of u] show ?thesis
    using False by (simp add: leadActivities_def)
qed

text \<open>
  C8. The time-decay penalty is a function of the whole days (of 86400000 ms) from the
  timestamp of the first, that is the most recent, of the activities to now, or from the
  lead's last update when it has no activity: 20 from 90 days, 10 from 60 days, 5 from 30
  days, 0 below, the largest threshold reached deciding alone. It takes no other value, and
  it never decreases when the number of days grows; so the penalty at 31 days is at least
  the penalty at 29 days, which is at least the penalty at 0 days. For the activities of a
  lead as the engine loads them, the days are counted from the greatest timestamp among the
  lead's activities.
\<close>

theorem calculateTimeDecay_monotone_thresholds:
  "calculateTimeDecay acts u now =
     (let d = (now - (case acts of [] \<Rightarrow> u | a # _ \<Rightarrow> act_timestamp a)) div 86400000
      in if 90 \<le> d then 20 else if 60 \<le> d then 10 else if 30 \<le> d then 5 else 0)
   \<and> calculateTimeDecay acts u now \<in> {0, 5, 10, 20}
   \<and> ((now - (case acts of [] \<Rightarrow> u | a # _ \<Rightarrow> act_timestamp a)) div 86400000
        \<le> (now' - (case acts' of [] \<Rightarrow> u' | a # _ \<Rightarrow> act_timestamp a)) div 86400000
        \<longrightarrow> calculateTimeDecay acts u now \<le> calculateTimeDecay acts' u' now')
   \<and> calculateTimeDecay (leadActivities s i) u now =
       (let d = (now - (if filter (\<lambda>a. act_leadId a = i) (activities s) = [] then u
                        else Max (act_timestamp ` set (filter (\<lambda>a. act_leadId a = i) (activities s)))))
                div 86400000
        in if 90 \<le> d then 20 else if 60 \<le> d then 10 else if 30 \<le> d then 5 else 0)
   \<and> calculateTimeDecay [] 0 (0 * 86400000) \<le> calculateTimeDecay [] 0 (29 * 86400000)
   \<and> calculateTimeDecay [] 0 (29 * 86400000) \<le> calculateTimeDecay [] 0 (31 * 86400000)"
proof -
  have e: "calculateTimeDecay acts u now =
     (let d = (now - (case acts of [] \<Rightarrow> u | a # _ \<Rightarrow> act_timestamp a)) div 86400000
      in if 90 \<le> d then 20 else if 60 \<le> d then 10 else if 30 \<le> d then 5 else 0)"
    for acts u now
    by (simp add: calculateTimeDecay_eq Let_def daysSinceActivity_def)
  have 1: "calculateTimeDecay acts u now \<in> {0, 5, 10, 20}"
    by (simp add: e Let_def)
  have 2: "(now - (case acts of [] \<Rightarrow> u | a # _ \<Rightarrow> act_timestamp a)) div 86400000
        \<le> (now' - (case acts' of [] \<Rightarrow> u' | a # _ \<Rightarrow> act_timestamp a)) div 86400000
        \<longrightarrow> calculateTimeDecay acts u now \<le> calculateTimeDecay acts' u' now'"
    by (simp add: e Let_def)
  have 3: "calculateTimeDecay (leadActivities s i) u now =
       (let d = (now - (if filter (\<lambda>a. act_leadId a = i) (activities s) = [] then u
                        else Max (act_timestamp ` set (filter (\<lambda>a. act_leadId a = i) (activities s)))))
                div 86400000
        in if 90 \<le> d then 20 else if 60 \<le> d then 10 else if 30 \<le> d then 5 else 0)"
    unfolding e leadActivities_newest by (rule refl)
  have 4: "calculateTimeDecay [] 0 (0 * 86400000) \<le> calculateTimeDecay [] 0 (29 * 86400000)"
    "calculateTimeDecay [] 0 (29 * 86400000) \<le> calculateTimeDecay [] 0 (31 * 86400000)"
    by (simp_all add: e)
  show ?thesis
    by (intro conjI e 1 2 3 4)
qed

text \<open>
  C8 on two histories: a lead without activity, last updated at time 0, read at day 29, and
  a lead whose one activity is of time 0, read at day 61. The days are 29 and 61, the
  penalties 0 and 10.
\<close>

theorem calculateTimeDecay_monotone_thresholds_witness:
  "(29 * 86400000 - (case [] of [] \<Rightarrow> 0 | a # _ \<Rightarrow> act_timestamp a)) div 86400000
     \<le> (61 * 86400000 - (case [exActivity A_NOTE None 0] of [] \<Rightarrow> 7 | a # _ \<Rightarrow> act_timestamp a))
          div 86400000
   \<and> calculateTimeDecay [] 0 (29 * 86400000) = 0
   \<and> calculateTimeDecay [exActivity A_NOTE None 0] 7 (61 * 86400000) = 10
   \<and> calculateTimeDecay [] 0 (29 * 86400000)
        \<le> calculateTimeDecay [exActivity A_NOTE None 0] 7 (61 * 86400000)"
proof -
  note T1 = calculateTimeDecay_monotone_thresholds
          [where acts="[]" and u=0 and now="29 * 86400000"
             and acts'="[exActivity A_NOTE None 0]" and u'=7 and now'="61 * 86400000"
             and s="exStore [] []" and i="''lead-1''"]
  note T2 = calculateTimeDecay_monotone_thresholds
          [where acts="[exActivity A_NOTE None 0]" and u=7 and now="61 * 86400000"
             and acts'="[]" and u'=0 and now'=0
             and s="exStore [] []" and i="''lead-1''"]
  have a: "calculateTimeDecay [] 0 (29 * 86400000) = 0"
    unfolding T1[THEN conjunct1] by simp
  have b: "calculateTimeDecay [exActivity A_NOTE None 0] 7 (61 * 86400000) = 10"
    unfolding T2[THEN conjunct1] by (simp add: exActivity_def)
  have c: "(29 * 86400000 - (case [] of [] \<Rightarrow> 0 | a # _ \<Rightarrow> act_timestamp a)) div 86400000
     \<le> (61 * 86400000 - (case [exActivity A_NOTE None 0] of [] \<Rightarrow> 7 | a # _ \<Rightarrow> act_timestamp a))
          div 86400000"
    by (simp add: exActivity_def)
  have d: "calculateTimeDecay [] 0 (29 * 86400000)
        \<le> calculateTimeDecay [exActivity A_NOTE None 0] 7 (61 * 86400000)"
    by (rule T1[THEN conjunct2, THEN conjunct2, THEN conjunct1, rule_format, OF c])
  show ?thesis
    by (intro conjI c a b d)
qed

lemma outcomeLoop_sum:
  "outcomeLoop as acc = acc + sum_list (map getOutcomeScore (List.map_filter act_outcome as))"
  by (induction as arbitrary: acc) (auto simp: List.map_filter_simps split: option.splits)

lemma activityLoop_sum:
  "activityLoop as acc = acc + sum_list (map (getActivityTypeScore \<circ> act_type) as)"
  by (induction as arbitrary: acc) auto

text \<open>
  C7. The outcome component should be the capped sum over the five most recent activities
  that have an outcome, and the code says as much where it cuts the list ("only count last 5
  outcomes"). But it cuts the list of all activities to five and only then skips those
  without an outcome: five recent activities without an outcome push an older INTERESTED
  outcome out of the window. On this history the code gives 0, the claim gives 15.
\<close>

theorem calculateOutcomeScore_not_last_five_outcomes:
  "calculateOutcomeScore
     [exActivity A_NOTE None 6, exActivity A_NOTE None 5, exActivity A_NOTE None 4,
      exActivity A_NOTE None 3, exActivity A_NOTE None 2,
      exActivity A_CALL_OUTBOUND (Some O_INTERESTED) 1] = 0
   \<and> spec_outcomeScore
     [exActivity A_NOTE None 6, exActivity A_NOTE None 5, exActivity A_NOTE None 4,
      exActivity A_NOTE None 3, exActivity A_NOTE None 2,
      exActivity A_CALL_OUTBOUND (Some O_INTERESTED) 1] = 15
   \<and> calculateOutcomeScore
     [exActivity A_NOTE None 6, exActivity A_NOTE None 5, exActivity A_NOTE None 4,
      exActivity A_NOTE None 3, exActivity A_NOTE None 2,
      exActivity A_CALL_OUTBOUND (Some O_INTERESTED) 1]
   \<noteq> spec_outcomeScore
     [exActivity A_NOTE None 6, exActivity A_NOTE None 5, exActivity A_NOTE None 4,
      exActivity A_NOTE None 3, exActivity A_NOTE None 2,
      exActivity A_CALL_OUTBOUND (Some O_INTERESTED) 1]"
  by (simp add: calculateOutcomeScore_def spec_outcomeScore_def exActivity_def
      List.map_filter_simps)

text \<open>
  What the code computes: the sum of the modifiers over those of the first five activities
  that have an outcome, capped at 30; the two agree on every history whose first five
  activities all have an outcome.
\<close>

lemma calculateOutcomeScore_eq:
  "calculateOutcomeScore acts =
     min 30 (sum_list (map getOutcomeScore (List.map_filter act_outcome (take 5 acts))))"
  by (simp add: calculateOutcomeScore_def outcomeLoop_sum)

lemma calculateOutcomeScore_agrees:
  assumes "list_all (\<lambda>a. act_outcome a \<noteq> None) (take 5 acts)"
  shows "calculateOutcomeScore acts = spec_outcomeScore acts"
proof -
  have "List.map_filter f (take n xs) = take n (List.map_filter f xs)"
    if "list_all (\<lambda>a. f a \<noteq> None) (take n xs)" for f :: "Activity \<Rightarrow> ActivityOutcome option" and n xs
    using that
  proof (induction xs arbitrary: n)
    case Nil
    show ?case by (simp add: List.map_filter_simps)
  next
    case (Cons x xs)
    show ?case
    proof (cases n)
      case 0
      then show ?thesis by (simp add: List.map_filter_simps)
    next
      case (Suc m)
      with Cons.prems obtain y where y: "f x = Some y" and r: "list_all (\<lambda>a. f a \<noteq> None) (take m xs)"
        by auto
      show ?thesis
        using Cons.IH[OF r] by (simp add: Suc y List.map_filter_simps)
    qed
  qed
  from this[OF assms] show ?thesis
    by (simp add: calculateOutcomeScore_eq spec_outcomeScore_def)
qed

section \<open>Scoring: the persisted score\<close>

lemma find_map_lead:
  assumes "\<And>l. lead_id (g l) = lead_id l"
  shows "find (\<lambda>l. lead_id l = i) (map (\<lambda>l. if lead_id l = i then g l else l) xs)
         = map_option g (find (\<lambda>l. lead_id l = i) xs)"
  by (induction xs) (auto simp: assms)

lemma calculateLeadScore_bounds:
  "calculateLeadScore leadId now s = Inr b \<Longrightarrow> 0 \<le> currentScore b \<and> currentScore b \<le> 100"
  by (auto simp: calculateLeadScore_def Let_def MAX_SCORE_def split: option.splits)

lemma leadUpdate_found:
  assumes "findLead s i = Some l" and "\<And>l. lead_id (g l) = lead_id l"
  shows "\<exists>s'. leadUpdate i g now s = (Inr (), s')
           \<and> findLead s' i = Some ((g l)\<lparr>lead_updatedAt := now\<rparr>)
           \<and> logs s' = logs s"
proof -
  have "find (\<lambda>l. lead_id l = i)
          (map (\<lambda>l. if lead_id l = i then (g l)\<lparr>lead_updatedAt := now\<rparr> else l) (leads s))
        = map_option (\<lambda>l. (g l)\<lparr>lead_updatedAt := now\<rparr>) (find (\<lambda>l. lead_id l = i) (leads s))"
    by (rule find_map_lead) (simp add: assms(2))
  then show ?thesis
    using assms(1) by (simp add: leadUpdate_def findLead_def)
qed

text \<open>
  C1. For a lead of the store, with whatever activities, \<open>updateLeadScore\<close> returns the
  breakdown that \<open>calculateLeadScore\<close> computes; its score is the sum of the intent, status,
  activity and outcome components minus the time decay, clamped to the integers from 0 to
  100, and that score is the one the lead carries afterwards.
\<close>

theorem updateLeadScore_in_range:
  assumes "findLead s leadId = Some lead"
  shows "\<exists>b s'. updateLeadScore leadId now s = (Inr b, s')
           \<and> calculateLeadScore leadId now s = Inr b
           \<and> currentScore b =
               max 0 (min 100 (intentScore (breakdown b) + statusScore (breakdown b)
                 + activityScore (breakdown b) + outcomeScore (breakdown b)
                 - timeDecay (breakdown b)))
           \<and> 0 \<le> currentScore b \<and> currentScore b \<le> 100
           \<and> (\<exists>lead'. findLead s' leadId = Some lead' \<and> lead_score lead' = currentScore b)"
proof -
  obtain b where b: "calculateLeadScore leadId now s = Inr b"
    using assms by (auto simp: calculateLeadScore_def Let_def)
  have f: "currentScore b =
               max 0 (min 100 (intentScore (breakdown b) + statusScore (breakdown b)
                 + activityScore (breakdown b) + outcomeScore (breakdown b)
                 - timeDecay (breakdown b)))"
    using b assms by (auto simp: calculateLeadScore_def Let_def MAX_SCORE_def BASE_SCORE_def)
  obtain s1 where s1: "leadUpdate leadId (\<lambda>l. l\<lparr>lead_score := currentScore b\<rparr>) now s = (Inr (), s1)"
    and l1: "findLead s1 leadId = Some (lead\<lparr>lead_score := currentScore b, lead_updatedAt := now\<rparr>)"
    using leadUpdate_found[OF assms, of "\<lambda>l. l\<lparr>lead_score := currentScore b\<rparr>" now] by auto
  define s2 where "s2 = s1\<lparr>logs := logs s1 @ [ScoringLog leadId (previousScore b) (currentScore b)]\<rparr>"
  have run: "updateLeadScore leadId now s = (Inr b, s2)"
    by (simp add: updateLeadScore_def thenDo_def lift_def b s1 logE_def ret_def s2_def)
  have l2: "findLead s2 leadId = Some (lead\<lparr>lead_score := currentScore b, lead_updatedAt := now\<rparr>)"
    using l1 by (simp add: s2_def findLead_def)
  show ?thesis
  proof (intro exI conjI)
    show "updateLeadScore leadId now s = (Inr b, s2)" by (rule run)
    show "calculateLeadScore leadId now s = Inr b" by (rule b)
    show "currentScore b =
               max 0 (min 100 (intentScore (breakdown b) + statusScore (breakdown b)
                 + activityScore (breakdown b) + outcomeScore (breakdown b)
                 - timeDecay (breakdown b)))" by (rule f)
    show "0 \<le> currentScore b" using calculateLeadScore_bounds[OF b] by blast
    show "currentScore b \<le> 100" using calculateLeadScore_bounds[OF b] by blast
    show "findLead s2 leadId = Some (lead\<lparr>lead_score := currentScore b, lead_updatedAt := now\<rparr>)"
      by (rule l2)
    show "lead_score (lead\<lparr>lead_score := currentScore b, lead_updatedAt := now\<rparr>) = currentScore b"
      by simp
  qed
qed

text \<open>
  The theorem at a lead whose components add up to 50 + 100 + 40 + 30 = 220: a HOT lead in
  status PLACED with an application sent and a SOLD outcome. The persisted score is 100.
\<close>

theorem updateLeadScore_in_range_witness:
  "findLead (exStore [exLead L_PLACED] [exActivity A_APPLICATION_SENT (Some O_SOLD) 0]) ''lead-1''
     = Some (exLead L_PLACED)
   \<and> (\<exists>b s'. updateLeadScore ''lead-1'' 1000
                 (exStore [exLead L_PLACED] [exActivity A_APPLICATION_SENT (Some O_SOLD) 0])
               = (Inr b, s')
        \<and> currentScore b = 100
        \<and> (\<exists>lead'. findLead s' ''lead-1'' = Some lead' \<and> lead_score lead' = 100))"
proof -
  let ?a = "exActivity A_APPLICATION_SENT (Some O_SOLD) 0"
  let ?s = "exStore [exLead L_PLACED] [?a]"
  have h: "findLead ?s ''lead-1'' = Some (exLead L_PLACED)"
    by (simp add: findLead_def exStore_def exLead_def)
  have la: "leadActivities ?s ''lead-1'' = [?a]"
    by (simp add: leadActivities_def exStore_def exActivity_def)
  have a: "calculateActivityScore [?a] = 40"
    by (simp add: calculateActivityScore_def exActivity_def)
  have b: "calculateOutcomeScore [?a] = 30"
    by (simp add: calculateOutcomeScore_def exActivity_def)
  have c: "calculateTimeDecay [?a] (lead_updatedAt (exLead L_PLACED)) 1000 = 0"
    by (simp add: calculateTimeDecay_eq daysSinceActivity_def exActivity_def)
  have i: "getIntentScore (lead_intentLevel (exLead L_PLACED)) = 50"
    and st: "getStatusScore (lead_status (exLead L_PLACED)) = 100"
    by (simp_all add: exLead_def)
  have c: "\<And>b. calculateLeadScore ''lead-1'' 1000 ?s = Inr b \<Longrightarrow> currentScore b = 100"
    unfolding calculateLeadScore_def h la option.case Let_def a b c i st
    by (auto simp: BASE_SCORE_def MAX_SCORE_def)
  from updateLeadScore_in_range[OF h, of 1000]
  obtain b s' lead' where
    "updateLeadScore ''lead-1'' 1000 ?s = (Inr b, s')"
    "calculateLeadScore ''lead-1'' 1000 ?s = Inr b"
    "findLead s' ''lead-1'' = Some lead'" "lead_score lead' = currentScore b"
    by blast
  with c[of b] h show ?thesis by auto
qed

section \<open>Sequencing\<close>

lemma thenDo_Inr: "m s = (Inr x, s') \<Longrightarrow> thenDo m f s = f x s'"
  by (simp add: thenDo_def)

lemma thenDo_Inl: "m s = (Inl e, s') \<Longrightarrow> thenDo m f s = (Inl e, s')"
  by (simp add: thenDo_def)

lemma tryCatch_Inr: "m s = (Inr x, s') \<Longrightarrow> tryCatch m h s = (Inr x, s')"
  by (simp add: tryCatch_def)

lemma tryCatch_Inl: "m s = (Inl e, s') \<Longrightarrow> tryCatch m h s = h e s'"
  by (simp add: tryCatch_def)

lemma ret_apply: "ret x s = (Inr x, s)"
  by (simp add: ret_def)

lemma throw_apply: "throw e s = (Inl e, s)"
  by (simp add: throw_def)

lemma lift_apply: "lift r s = (r, s)"
  by (simp add: lift_def)

lemma logE_apply: "logE e s = (Inr (), s\<lparr>logs := logs s @ [e]\<rparr>)"
  by (simp add: logE_def)

lemma whenE_True: "whenE True m = m" and whenE_False: "whenE False m = ret ()"
  by (simp_all add: whenE_def)

section \<open>Rows and ids\<close>

lemma findLead_known: "findLead s i \<noteq> None \<longleftrightarrow> i \<in> set (map lead_id (leads s))"
  by (auto simp: findLead_def find_None_iff)

lemma find_by_id_distinct:
  assumes "distinct (map f xs)" and "x \<in> set xs"
  shows "find (\<lambda>y. f y = f x) xs = Some x"
  using assms by (induction xs) (auto simp: image_iff)

lemma same_id_same_row:
  assumes "distinct (map f xs)" and "x \<in> set xs" and "y \<in> set xs" and "f x = f y"
  shows "x = y"
  using assms by (meson distinct_map inj_on_def)

lemma find_Some_mem: "find P xs = Some x \<Longrightarrow> x \<in> set xs \<and> P x"
  by (induction xs) (auto split: if_splits)

section \<open>Stores with the same ledger\<close>

lemma sameLedger_refl: "sameLedger s s"
  by (simp add: sameLedger_def)

lemma sameLedger_trans: "sameLedger s s' \<Longrightarrow> sameLedger s' s'' \<Longrightarrow> sameLedger s s''"
  by (simp add: sameLedger_def)

lemma sameLedger_logs: "sameLedger s (s\<lparr>logs := x\<rparr>)"
  by (simp add: sameLedger_def)


lemma leadUpdate_unknown:
  assumes "i \<notin> set (map lead_id (leads s))"
  shows "leadUpdate i g now s = (Inl StoreRecordNotFound, s)"
  using assms findLead_known[of s i] by (auto simp: leadUpdate_def)

section \<open>The lead of the event\<close>


lemma leadAfter_Nil: "leadAfter ctx now [] l = l"
  by (simp add: leadAfter_def)

lemma leadAfter_id: "lead_id (leadAfter ctx now sts l) = lead_id l"
  by (simp add: leadAfter_def)

lemma leadAfter_append:
  "leadAfter ctx now ys (leadAfter ctx now xs l) = leadAfter ctx now (xs @ ys) l"
  by (simp add: leadAfter_def)

lemma map_leadAfter_Nil: "map (leadAfter ctx now []) ls = ls"
  by (simp add: leadAfter_Nil cong: map_cong)

lemma map_leadAfter_append:
  "map (leadAfter ctx now ys) (map (leadAfter ctx now xs) ls) = map (leadAfter ctx now (xs @ ys)) ls"
  by (simp add: leadAfter_append)

lemma map_leadAfter_ids: "map lead_id (map (leadAfter ctx now sts) ls) = map lead_id ls"
  by (simp add: leadAfter_id)

lemma leadUpdate_sets_status:
  assumes "i \<in> set (map lead_id (leads s))" and "ctx_leadId ctx = Some i"
  shows "leadUpdate i (\<lambda>l. l\<lparr>lead_status := x\<rparr>) now s
           = (Inr (), s\<lparr>leads := map (leadAfter ctx now [x]) (leads s)\<rparr>)"
proof -
  obtain l where "findLead s i = Some l"
    using assms(1) findLead_known[of s i] by auto
  moreover have "(\<lambda>l. if lead_id l = i then l\<lparr>lead_status := x, lead_updatedAt := now\<rparr> else l)
        = leadAfter ctx now [x]"
    by (auto simp: leadAfter_def assms(2) fun_eq_iff)
  ultimately show ?thesis
    by (simp add: leadUpdate_def)
qed

text \<open>A status the client accepts is converted to a string without an exception.\<close>

lemma statusOfJson_interpolate:
  assumes "statusOfJson st = Inr v"
  shows "interpolate st = ret ()"
proof (cases st)
  case None
  then show ?thesis by (simp add: interpolate_def)
next
  case (Some j)
  show ?thesis
  proof (cases j)
    case (JObj kvs)
    have all: "list_all (\<lambda>kv. fst kv = ''set'') kvs"
      using assms unfolding Some JObj by (simp split: if_splits)
    have "map_of kvs ''toString'' = None"
    proof (rule ccontr)
      assume "map_of kvs ''toString'' \<noteq> None"
      then obtain y where "(''toString'', y) \<in> set kvs"
        by (auto dest: map_of_SomeD)
      with all show False by (auto simp: list_all_iff)
    qed
    then show ?thesis by (simp add: interpolate_def Some JObj)
  qed (use assms Some in \<open>simp_all add: interpolate_def\<close>)
qed

section \<open>One action\<close>

lemma executeAction_runs:
  assumes "actionRuns (map lead_id (leads s)) ctx a"
  shows "executeAction a ctx now s
           = (Inr (), s\<lparr>leads := map (leadAfter ctx now (List.map_filter (statusSet ctx) [a])) (leads s),
                        logs := logs s @ actionTrace ctx a\<rparr>)"
proof -
  obtain t where t: "getProp a ''type'' = Inr t"
    using assms by (auto simp: actionRuns_def split: sum.splits)
  show ?thesis
  proof (cases "t = Some (JStr ''update_lead_status'')")
    case False
    have ns: "statusSet ctx a = None"
      by (simp add: statusSet_def t False)
    show ?thesis
    proof (cases "t \<in> set [Some (JStr ''send_email''), Some (JStr ''send_sms''),
                            Some (JStr ''create_task''), Some (JStr ''log_note''),
                            Some (JStr ''webhook'')]")
      case True
      then show ?thesis
        by (auto simp: executeAction_def actionTrace_def t thenDo_def lift_def logE_def
            List.map_filter_simps ns map_leadAfter_Nil)
    next
      case other: False
      have "interpolate t = ret ()"
        using assms False other
        by (auto simp: actionRuns_def t interpolate_def split: option.splits)
      then show ?thesis
        using False other
        by (auto simp: executeAction_def actionTrace_def t thenDo_def lift_def logE_def ret_def
            List.map_filter_simps ns map_leadAfter_Nil)
    qed
  next
    case upd: True
    show ?thesis
    proof (cases "ctx_leadId ctx")
      case None
      then show ?thesis
        by (simp add: executeAction_def actionTrace_def statusSet_def t upd thenDo_def lift_def
            ret_def List.map_filter_simps map_leadAfter_Nil)
    next
      case (Some leadId)
      show ?thesis
      proof (cases "leadId = []")
        case True
        then show ?thesis
          by (simp add: executeAction_def actionTrace_def statusSet_def t upd Some thenDo_def
              lift_def ret_def List.map_filter_simps map_leadAfter_Nil)
      next
        case False
        obtain st v where st: "getProp a ''status'' = Inr st" and v: "statusOfJson st = Inr v"
          and known: "leadId \<in> set (map lead_id (leads s))"
          using assms False by (auto simp: actionRuns_def t upd Some split: sum.splits)
        have ss: "statusSet ctx a = v"
          by (simp add: statusSet_def t upd Some False st v)
        have at: "actionTrace ctx a = [ActionLog a]"
          by (simp add: actionTrace_def t upd Some False)
        have ip: "interpolate st = ret ()"
          using v by (rule statusOfJson_interpolate)
        have "leadUpdateStatus leadId st now s
                = (Inr (), s\<lparr>leads := map (leadAfter ctx now (List.map_filter (statusSet ctx) [a])) (leads s)\<rparr>)"
        proof (cases v)
          case None
          obtain l where "findLead s leadId = Some l"
            using known findLead_known[of s leadId] by auto
          then show ?thesis
            by (simp add: leadUpdateStatus_def thenDo_def lift_def v None ss
                List.map_filter_simps map_leadAfter_Nil)
        next
          case (Some x)
          then show ?thesis
            using leadUpdate_sets_status[OF known \<open>ctx_leadId ctx = Some leadId\<close>, of x now]
            by (simp add: leadUpdateStatus_def thenDo_def lift_def v ss List.map_filter_simps)
        qed
        then show ?thesis
          by (simp add: executeAction_def t upd Some False thenDo_def lift_def st ip ret_def
              logE_def at)
      qed
    qed
  qed
qed

lemma executeAction_throws:
  assumes "\<not> actionRuns (map lead_id (leads s)) ctx a"
  shows "\<exists>e. executeAction a ctx now s = (Inl e, s)"
proof (cases "getProp a ''type''")
  case (Inl e)
  then show ?thesis
    by (simp add: executeAction_def thenDo_def lift_def)
next
  case (Inr t)
  show ?thesis
  proof (cases "t = Some (JStr ''update_lead_status'')")
    case other: False
    with assms obtain j where j: "t = Some j" "toStringFails j"
      and no: "t \<notin> set [Some (JStr ''send_email''), Some (JStr ''send_sms''),
                            Some (JStr ''create_task''), Some (JStr ''log_note''),
                            Some (JStr ''webhook'')]"
      by (auto simp: actionRuns_def Inr split: if_splits option.splits)
    have "interpolate t = throw JsTypeError"
      by (simp add: interpolate_def j)
    then show ?thesis
      using other no
      by (auto simp: executeAction_def thenDo_def lift_def Inr throw_def)
  next
    case upd: True
    with assms Inr obtain leadId where lid: "ctx_leadId ctx = Some leadId" "leadId \<noteq> []"
      by (auto simp: actionRuns_def split: if_splits option.splits)
    show ?thesis
    proof (cases "getProp a ''status''")
      case (Inl e)
      then show ?thesis
        by (simp add: executeAction_def thenDo_def lift_def Inr upd lid)
    next
      case st: (Inr st)
      show ?thesis
      proof (cases "statusOfJson st")
        case (Inl e)
        then show ?thesis
          by (simp add: executeAction_def thenDo_def lift_def Inr upd lid st leadUpdateStatus_def)
      next
        case v: (Inr v)
        then have unknown: "leadId \<notin> set (map lead_id (leads s))"
          using assms by (simp add: actionRuns_def Inr upd lid st)
        then have nf: "findLead s leadId = None"
          using findLead_known[of s leadId] by auto
        have "leadUpdateStatus leadId st now s = (Inl StoreRecordNotFound, s)"
          using leadUpdate_unknown[OF unknown] nf
          by (cases v) (simp_all add: leadUpdateStatus_def thenDo_def lift_def v)
        then show ?thesis
          by (simp add: executeAction_def thenDo_def lift_def Inr upd lid st)
      qed
    qed
  qed
qed

lemma actionLoop_spec:
  "\<exists>r s'. actionLoop as ctx now s = (r, s')
     \<and> (r = Inr () \<longleftrightarrow> list_all (actionRuns (map lead_id (leads s)) ctx) as)
     \<and> logs s' = logs s @ actionsTrace (map lead_id (leads s)) ctx as
     \<and> leads s' = map (leadAfter ctx now (List.map_filter (statusSet ctx)
                          (takeWhile (actionRuns (map lead_id (leads s)) ctx) as))) (leads s)
     \<and> sameLedger s s' \<and> campaigns s' = campaigns s"
proof (induction as arbitrary: s)
  case Nil
  show ?case by (simp add: ret_def sameLedger_refl List.map_filter_simps map_leadAfter_Nil)
next
  case (Cons a as)
  let ?ids = "map lead_id (leads s)"
  show ?case
  proof (cases "actionRuns ?ids ctx a")
    case True
    define s1 where "s1 = s\<lparr>leads := map (leadAfter ctx now (List.map_filter (statusSet ctx) [a])) (leads s),
                        logs := logs s @ actionTrace ctx a\<rparr>"
    have s1: "executeAction a ctx now s = (Inr (), s1)"
      unfolding s1_def by (rule executeAction_runs[OF True])
    have ids: "map lead_id (leads s1) = ?ids"
      by (simp add: s1_def map_leadAfter_ids del: map_map)
    have f1: "logs s1 = logs s @ actionTrace ctx a" "campaigns s1 = campaigns s"
      "leads s1 = map (leadAfter ctx now (List.map_filter (statusSet ctx) [a])) (leads s)"
      by (simp_all add: s1_def)
    have led1: "sameLedger s s1"
      using ids by (simp add: sameLedger_def s1_def)
    from Cons.IH[of s1] obtain r s' where
      r: "actionLoop as ctx now s1 = (r, s')"
         "r = Inr () \<longleftrightarrow> list_all (actionRuns ?ids ctx) as"
         "logs s' = logs s1 @ actionsTrace ?ids ctx as"
         "leads s' = map (leadAfter ctx now (List.map_filter (statusSet ctx)
                          (takeWhile (actionRuns ?ids ctx) as))) (leads s1)"
         "sameLedger s1 s'" "campaigns s' = campaigns s1"
      unfolding ids by blast
    have "actionLoop (a # as) ctx now s = (r, s')"
      by (simp add: thenDo_def s1 r(1))
    moreover have "leads s' = map (leadAfter ctx now (List.map_filter (statusSet ctx)
                          (takeWhile (actionRuns ?ids ctx) (a # as)))) (leads s)"
    proof -
      have "List.map_filter (statusSet ctx) (a # takeWhile (actionRuns ?ids ctx) as)
              = List.map_filter (statusSet ctx) [a]
                @ List.map_filter (statusSet ctx) (takeWhile (actionRuns ?ids ctx) as)"
        by (simp add: List.map_filter_simps split: option.splits)
      then show ?thesis
        unfolding r(4) f1(3) map_leadAfter_append using True by simp
    qed
    ultimately show ?thesis
      using True r(2,3,6) f1(1,2) sameLedger_trans[OF led1 r(5)] by simp
  next
    case False
    from executeAction_throws[OF False, of now] obtain e where
      "executeAction a ctx now s = (Inl e, s)" by blast
    then have "actionLoop (a # as) ctx now s = (Inl e, s)"
      by (simp add: thenDo_def)
    then show ?thesis
      using False by (simp add: sameLedger_refl List.map_filter_simps map_leadAfter_Nil)
  qed
qed

section \<open>One campaign\<close>

lemma evaluateCampaignTrigger_spec:
  assumes "findCampaign s cid = Some c"
  shows "evaluateCampaignTrigger cid ctx s =
           (Inr (triggerMatches ctx c),
            if triggerFails c then s\<lparr>logs := logs s @ [TriggerFailedLog cid]\<rparr> else s)"
proof (cases "cmp_triggerCondition c")
  case None
  then show ?thesis
    by (simp add: evaluateCampaignTrigger_def assms tryCatch_def thenDo_def lift_def
        JSON_parse_def logE_def ret_def triggerMatches_def triggerFails_def)
next
  case (Some j)
  show ?thesis
  proof (cases "getProp j ''trigger''")
    case (Inl e)
    then show ?thesis
      by (simp add: evaluateCampaignTrigger_def assms tryCatch_def thenDo_def lift_def
          JSON_parse_def logE_def ret_def triggerMatches_def triggerFails_def Some)
  next
    case (Inr t)
    then show ?thesis
      by (simp add: evaluateCampaignTrigger_def assms tryCatch_def thenDo_def lift_def
          JSON_parse_def logE_def ret_def triggerMatches_def triggerFails_def Some)
  qed
qed

lemma campaignUpdate_found:
  assumes "findCampaign s cid = Some c"
  shows "campaignUpdate cid g s =
           (Inr (), s\<lparr>campaigns := map (\<lambda>x. if cmp_id x = cid then g x else x) (campaigns s)\<rparr>)"
  using assms by (simp add: campaignUpdate_def)

lemma executeCampaign_spec:
  assumes "findCampaign s cid = Some c" and "cmp_id c = cid"
  shows "\<exists>s'. executeCampaign cid ctx now s = (Inr (), s')
           \<and> logs s' = logs s @ executionTrace (map lead_id (leads s)) ctx c
           \<and> campaigns s' =
               (if actionsComplete (map lead_id (leads s)) ctx c
                then map (\<lambda>x. if cmp_id x = cid then ranOnce now x else x) (campaigns s)
                else campaigns s)
           \<and> (triggerMatches ctx c \<longrightarrow>
                leads s' = map (leadAfter ctx now (statusesSet (map lead_id (leads s)) ctx c)) (leads s))
           \<and> sameLedger s s'"
proof -
  let ?ids = "map lead_id (leads s)"
  define s0 where "s0 = s\<lparr>logs := logs s @ [CampaignLog cid (ctx_trigger ctx)]\<rparr>"
  have s0: "logE (CampaignLog cid (ctx_trigger ctx)) s = (Inr (), s0)"
    by (simp add: logE_def s0_def)
  have ids0: "map lead_id (leads s0) = ?ids" and c0: "campaigns s0 = campaigns s"
    and l0: "logs s0 = logs s @ [CampaignLog cid (ctx_trigger ctx)]" and led0: "sameLedger s s0"
    and ld0: "leads s0 = leads s"
    by (simp_all add: s0_def sameLedger_def)
  have f0: "findCampaign s0 cid = Some c"
    using assms(1) by (simp add: findCampaign_def c0)
  define m :: "unit io" where "m = thenDo (lift (JSON_parse (cmp_actions c))) (\<lambda>j.
            thenDo (lift (iterate j)) (\<lambda>as.
            thenDo (actionLoop as ctx now) (\<lambda>_.
            campaignUpdate cid
              (\<lambda>c. c\<lparr>cmp_runCount := cmp_runCount c + 1, cmp_lastRunAt := Some now\<rparr>))))"
  have unfold: "executeCampaign cid ctx now s = tryCatch m (\<lambda>e. logE (CampaignFailedLog cid)) s0"
    by (simp add: executeCampaign_def assms(1) thenDo_def s0 m_def)
  have failed: "\<exists>s'. tryCatch m (\<lambda>e. logE (CampaignFailedLog cid)) s0 = (Inr (), s')
           \<and> logs s' = logs s @ CampaignLog cid (ctx_trigger ctx) # xs @ [CampaignFailedLog cid]
           \<and> campaigns s' = campaigns s \<and> leads s' = leads s1 \<and> sameLedger s s'"
    if "m s0 = (Inl e, s1)" "logs s1 = logs s0 @ xs" "campaigns s1 = campaigns s0" "sameLedger s0 s1"
    for e s1 xs
    using that sameLedger_trans[OF led0 that(4)]
    by (simp add: tryCatch_def logE_def l0 c0 sameLedger_def)
  show ?thesis
  proof (cases "cmp_actions c")
    case None
    have "m s0 = (Inl JsSyntaxError, s0)"
      by (simp add: m_def None JSON_parse_def thenDo_def lift_def)
    from failed[OF this, of "[]"] show ?thesis
      unfolding unfold
      by (auto simp: sameLedger_refl executionTrace_def actionsComplete_def None assms(2)
          statusesSet_def ld0 map_leadAfter_Nil)
  next
    case (Some j)
    show ?thesis
    proof (cases "iterate j")
      case (Inl e)
      have "m s0 = (Inl e, s0)"
        by (simp add: m_def Some Inl JSON_parse_def thenDo_def lift_def)
      from failed[OF this, of "[]"] show ?thesis
        unfolding unfold
        by (auto simp: sameLedger_refl executionTrace_def actionsComplete_def Some Inl assms(2)
            statusesSet_def ld0 map_leadAfter_Nil)
    next
      case (Inr as)
      from actionLoop_spec[of as ctx now s0] obtain r s1 where
        r: "actionLoop as ctx now s0 = (r, s1)"
           "r = Inr () \<longleftrightarrow> list_all (actionRuns ?ids ctx) as"
           "logs s1 = logs s0 @ actionsTrace ?ids ctx as"
           "sameLedger s0 s1" "campaigns s1 = campaigns s0"
           "leads s1 = map (leadAfter ctx now (List.map_filter (statusSet ctx)
                          (takeWhile (actionRuns ?ids ctx) as))) (leads s)"
        unfolding ids0 ld0 by blast
      show ?thesis
      proof (cases r)
        case err: (Inl e)
        have "m s0 = (Inl e, s1)"
          by (simp add: m_def Some Inr JSON_parse_def thenDo_def lift_def r(1) err)
        from failed[OF this r(3) r(5) r(4)] show ?thesis
          unfolding unfold using r(2) err
          by (auto simp: executionTrace_def actionsComplete_def Some Inr assms(2) statusesSet_def
              r(6))
      next
        case ok: (Inr u)
        have f1: "findCampaign s1 cid = Some c"
          using f0 by (simp add: findCampaign_def r(5))
        have "m s0 =
                (Inr (), s1\<lparr>campaigns := map (\<lambda>x. if cmp_id x = cid then ranOnce now x else x) (campaigns s1)\<rparr>)"
          by (simp add: m_def Some Inr JSON_parse_def thenDo_def lift_def r(1) ok
              campaignUpdate_found[OF f1] ranOnce_def)
        then have "executeCampaign cid ctx now s =
                (Inr (), s1\<lparr>campaigns := map (\<lambda>x. if cmp_id x = cid then ranOnce now x else x) (campaigns s1)\<rparr>)"
          unfolding unfold by (simp add: tryCatch_def)
        moreover have "list_all (actionRuns ?ids ctx) as"
          using r(2) ok by simp
        ultimately show ?thesis
          using r(3,5,6) sameLedger_trans[OF led0 r(4)]
          by (simp add: executionTrace_def actionsComplete_def Some Inr assms(2) l0 c0
              sameLedger_def statusesSet_def)
      qed
    qed
  qed
qed

section \<open>The loop over the campaigns\<close>

lemma campaign_step:
  assumes "distinct (map cmp_id (campaigns s))" and "c \<in> set (campaigns s)"
  shows "\<exists>b s0 s1. evaluateCampaignTrigger (cmp_id c) ctx s = (Inr b, s0)
           \<and> whenE b (executeCampaign (cmp_id c) ctx now) s0 = (Inr (), s1)
           \<and> logs s1 = logs s @ campaignTrace (map lead_id (leads s)) ctx c
           \<and> campaigns s1 =
               map (\<lambda>x. if cmp_id x = cmp_id c then campaignAfter now (map lead_id (leads s)) ctx x else x)
                 (campaigns s)
           \<and> leads s1 = map (leadAfter ctx now (statusesSet (map lead_id (leads s)) ctx c)) (leads s)
           \<and> sameLedger s s1"
proof -
  let ?ids = "map lead_id (leads s)"
  have f: "findCampaign s (cmp_id c) = Some c"
    unfolding findCampaign_def by (rule find_by_id_distinct[OF assms])
  have same: "x = c" if "x \<in> set (campaigns s)" "cmp_id x = cmp_id c" for x
    using same_id_same_row[OF assms(1) that(1) assms(2) that(2)] .
  note ev = evaluateCampaignTrigger_spec[OF f, of ctx]
  show ?thesis
  proof (cases "triggerMatches ctx c")
    case False
    have keep: "map (\<lambda>x. if cmp_id x = cmp_id c then campaignAfter now ?ids ctx x else x) (campaigns s)
                = campaigns s"
      by (rule map_idI) (auto simp: campaignAfter_def False dest: same)
    define s0 where "s0 = (if triggerFails c then s\<lparr>logs := logs s @ [TriggerFailedLog (cmp_id c)]\<rparr> else s)"
    have "evaluateCampaignTrigger (cmp_id c) ctx s = (Inr False, s0)"
      using ev False by (simp add: s0_def)
    moreover have "whenE False (executeCampaign (cmp_id c) ctx now) s0 = (Inr (), s0)"
      by (simp add: whenE_def ret_def)
    moreover have "logs s0 = logs s @ campaignTrace ?ids ctx c"
      using False by (simp add: s0_def campaignTrace_def)
    moreover have "campaigns s0 =
        map (\<lambda>x. if cmp_id x = cmp_id c then campaignAfter now ?ids ctx x else x) (campaigns s)"
      using keep by (simp add: s0_def)
    moreover have "sameLedger s s0"
      by (simp add: s0_def sameLedger_def)
    moreover have "leads s0 = map (leadAfter ctx now (statusesSet ?ids ctx c)) (leads s)"
      using False by (simp add: s0_def statusesSet_def map_leadAfter_Nil)
    ultimately show ?thesis
      by blast
  next
    case True
    then have nf: "\<not> triggerFails c"
      by (auto simp: triggerMatches_def triggerFails_def split: option.splits sum.splits)
    from executeCampaign_spec[OF f refl, of ctx now] obtain s1 where
      s1: "executeCampaign (cmp_id c) ctx now s = (Inr (), s1)"
          "logs s1 = logs s @ executionTrace ?ids ctx c"
          "campaigns s1 =
               (if actionsComplete ?ids ctx c
                then map (\<lambda>x. if cmp_id x = cmp_id c then ranOnce now x else x) (campaigns s)
                else campaigns s)"
          "sameLedger s s1"
          "leads s1 = map (leadAfter ctx now (statusesSet ?ids ctx c)) (leads s)"
      using True by blast
    have "campaigns s1 =
            map (\<lambda>x. if cmp_id x = cmp_id c then campaignAfter now ?ids ctx x else x) (campaigns s)"
    proof (cases "actionsComplete ?ids ctx c")
      case c: True
      have "map (\<lambda>x. if cmp_id x = cmp_id c then ranOnce now x else x) (campaigns s)
            = map (\<lambda>x. if cmp_id x = cmp_id c then campaignAfter now ?ids ctx x else x) (campaigns s)"
        by (rule map_cong[OF refl]) (auto simp: campaignAfter_def True c dest: same)
      then show ?thesis using s1(3) c by simp
    next
      case c: False
      have "map (\<lambda>x. if cmp_id x = cmp_id c then campaignAfter now ?ids ctx x else x) (campaigns s)
                = campaigns s"
        by (rule map_idI) (auto simp: campaignAfter_def c dest: same)
      then show ?thesis using s1(3) c by simp
    qed
    moreover have "evaluateCampaignTrigger (cmp_id c) ctx s = (Inr True, s)"
      using ev True nf by simp
    moreover have "whenE True (executeCampaign (cmp_id c) ctx now) s = (Inr (), s1)"
      using s1(1) by (simp add: whenE_def)
    moreover have "logs s1 = logs s @ campaignTrace ?ids ctx c"
      using s1(2) True nf by (simp add: campaignTrace_def)
    ultimately show ?thesis
      using s1(4,5) by blast
  qed
qed

lemma campaignLoop_spec:
  assumes "distinct (map cmp_id (campaigns s))" and "set cs \<subseteq> set (campaigns s)"
    and "distinct (map cmp_id cs)"
  shows "\<exists>s'. campaignLoop cs ctx now s = (Inr (), s')
           \<and> logs s' = logs s @ concat (map (campaignTrace (map lead_id (leads s)) ctx) cs)
           \<and> campaigns s' =
               map (\<lambda>x. if cmp_id x \<in> cmp_id ` set cs
                         then campaignAfter now (map lead_id (leads s)) ctx x else x) (campaigns s)
           \<and> leads s' = map (leadAfter ctx now
                          (concat (map (statusesSet (map lead_id (leads s)) ctx) cs))) (leads s)
           \<and> sameLedger s s'"
  using assms
proof (induction cs arbitrary: s)
  case Nil
  show ?case by (simp add: ret_def sameLedger_refl map_leadAfter_Nil)
next
  case (Cons c cs)
  let ?ids = "map lead_id (leads s)"
  let ?g = "\<lambda>x. if cmp_id x = cmp_id c then campaignAfter now ?ids ctx x else x"
  have cin: "c \<in> set (campaigns s)" using Cons.prems(2) by simp
  from campaign_step[OF Cons.prems(1) cin, of ctx now] obtain b s0 s1 where
    st: "evaluateCampaignTrigger (cmp_id c) ctx s = (Inr b, s0)"
        "whenE b (executeCampaign (cmp_id c) ctx now) s0 = (Inr (), s1)"
        "logs s1 = logs s @ campaignTrace ?ids ctx c"
        "campaigns s1 = map ?g (campaigns s)"
        "sameLedger s s1"
        "leads s1 = map (leadAfter ctx now (statusesSet ?ids ctx c)) (leads s)"
    by blast
  have ids1: "map lead_id (leads s1) = ?ids"
    using st(5) by (simp add: sameLedger_def)
  have idg: "cmp_id (?g x) = cmp_id x" for x
    by (simp add: campaignAfter_def ranOnce_def)
  have d1: "distinct (map cmp_id (campaigns s1))"
    using Cons.prems(1) by (simp add: st(4) comp_def idg cong: if_cong)
  have sub1: "set cs \<subseteq> set (campaigns s1)"
  proof
    fix x assume x: "x \<in> set cs"
    then have "x \<in> set (campaigns s)" using Cons.prems(2) by auto
    moreover have "cmp_id x \<noteq> cmp_id c" using x Cons.prems(3) by (auto simp: image_iff)
    ultimately have "?g x \<in> ?g ` set (campaigns s)" and "?g x = x"
      by (blast, simp)
    then show "x \<in> set (campaigns s1)" by (simp add: st(4))
  qed
  have d2: "distinct (map cmp_id cs)" using Cons.prems(3) by simp
  from Cons.IH[OF d1 sub1 d2] obtain s' where
    r: "campaignLoop cs ctx now s1 = (Inr (), s')"
       "logs s' = logs s1 @ concat (map (campaignTrace ?ids ctx) cs)"
       "campaigns s' =
               map (\<lambda>x. if cmp_id x \<in> cmp_id ` set cs
                         then campaignAfter now ?ids ctx x else x) (campaigns s1)"
       "sameLedger s1 s'"
       "leads s' = map (leadAfter ctx now (concat (map (statusesSet ?ids ctx) cs))) (leads s1)"
    unfolding ids1 by blast
  have run: "campaignLoop (c # cs) ctx now s = (Inr (), s')"
    by (simp add: thenDo_def st(1) st(2) r(1))
  have notin: "cmp_id c \<notin> cmp_id ` set cs" using Cons.prems(3) by auto
  have camp: "campaigns s' =
               map (\<lambda>x. if cmp_id x \<in> cmp_id ` set (c # cs)
                         then campaignAfter now ?ids ctx x else x) (campaigns s)"
    unfolding r(3) st(4) map_map
    by (rule map_cong[OF refl]) (use notin in \<open>auto simp: campaignAfter_def ranOnce_def\<close>)
  have ld: "leads s' = map (leadAfter ctx now (concat (map (statusesSet ?ids ctx) (c # cs)))) (leads s)"
    unfolding r(5) st(6) map_leadAfter_append by simp
  show ?case
    using run camp ld r(2) st(3) sameLedger_trans[OF st(5) r(4)] by simp
qed

lemma checkCampaigns_spec:
  assumes "distinct (map cmp_id (campaigns s))"
  shows "\<exists>s'. checkCampaigns ctx now s = (Inr (), s')
           \<and> logs s' = logs s @ concat (map (campaignTrace (map lead_id (leads s)) ctx)
                                         (filter (inScope ctx) (campaigns s)))
           \<and> campaigns s' =
               map (\<lambda>x. if inScope ctx x then campaignAfter now (map lead_id (leads s)) ctx x else x)
                 (campaigns s)
           \<and> leads s' = map (leadAfter ctx now
                          (concat (map (statusesSet (map lead_id (leads s)) ctx)
                                     (filter (inScope ctx) (campaigns s))))) (leads s)
           \<and> sameLedger s s'"
proof -
  let ?cs = "filter (inScope ctx) (campaigns s)"
  have d: "distinct (map cmp_id ?cs)"
    using assms by (rule distinct_map_filter)
  from campaignLoop_spec[OF assms _ d, of ctx now] obtain s' where
    r: "campaignLoop ?cs ctx now s = (Inr (), s')"
       "logs s' = logs s @ concat (map (campaignTrace (map lead_id (leads s)) ctx) ?cs)"
       "campaigns s' =
               map (\<lambda>x. if cmp_id x \<in> cmp_id ` set ?cs
                         then campaignAfter now (map lead_id (leads s)) ctx x else x) (campaigns s)"
       "leads s' = map (leadAfter ctx now
                          (concat (map (statusesSet (map lead_id (leads s)) ctx) ?cs))) (leads s)"
       "sameLedger s s'"
    by auto
  have "campaigns s' =
               map (\<lambda>x. if inScope ctx x then campaignAfter now (map lead_id (leads s)) ctx x else x)
                 (campaigns s)"
    unfolding r(3)
  proof (rule map_cong[OF refl])
    fix x assume x: "x \<in> set (campaigns s)"
    have "cmp_id x \<in> cmp_id ` set ?cs \<longleftrightarrow> inScope ctx x"
    proof
      assume "cmp_id x \<in> cmp_id ` set ?cs"
      then obtain y where y: "y \<in> set (campaigns s)" "inScope ctx y" "cmp_id x = cmp_id y"
        by auto
      from same_id_same_row[OF assms x y(1) y(3)] y(2) show "inScope ctx x" by simp
    next
      assume "inScope ctx x" then show "cmp_id x \<in> cmp_id ` set ?cs" using x by auto
    qed
    then show "(if cmp_id x \<in> cmp_id ` set ?cs
                then campaignAfter now (map lead_id (leads s)) ctx x else x)
             = (if inScope ctx x then campaignAfter now (map lead_id (leads s)) ctx x else x)"
      by simp
  qed
  moreover have "checkCampaigns ctx now s = (Inr (), s')"
  proof -
    have "inScope ctx = (\<lambda>c. cmp_agentId c = ctx_agentId ctx \<and> cmp_active c)"
      by (simp add: inScope_def fun_eq_iff)
    then show ?thesis using r(1) by (simp add: checkCampaigns_def)
  qed
  ultimately show ?thesis using r(2,4,5) by blast
qed

text \<open>The store after the dispatch of an event, whole.\<close>

lemma checkCampaigns_state:
  assumes "distinct (map cmp_id (campaigns s))"
  shows "checkCampaigns ctx now s =
           (Inr (),
            s\<lparr>leads := map (leadAfter ctx now
                          (concat (map (statusesSet (map lead_id (leads s)) ctx)
                                     (filter (inScope ctx) (campaigns s))))) (leads s),
              campaigns :=
                map (\<lambda>x. if inScope ctx x then campaignAfter now (map lead_id (leads s)) ctx x else x)
                  (campaigns s),
              logs := logs s @ concat (map (campaignTrace (map lead_id (leads s)) ctx)
                                         (filter (inScope ctx) (campaigns s)))\<rparr>)"
proof -
  from checkCampaigns_spec[OF assms, of ctx now] obtain s' where
    r: "checkCampaigns ctx now s = (Inr (), s')"
    and a: "logs s' = logs s @ concat (map (campaignTrace (map lead_id (leads s)) ctx)
                                         (filter (inScope ctx) (campaigns s)))"
       "campaigns s' =
               map (\<lambda>x. if inScope ctx x then campaignAfter now (map lead_id (leads s)) ctx x else x)
                 (campaigns s)"
       "leads s' = map (leadAfter ctx now
                          (concat (map (statusesSet (map lead_id (leads s)) ctx)
                                     (filter (inScope ctx) (campaigns s))))) (leads s)"
       "sameLedger s s'"
    by blast
  have "s' = s\<lparr>leads := leads s', campaigns := campaigns s', logs := logs s'\<rparr>"
    using a(4) by (simp add: sameLedger_def)
  then show ?thesis
    unfolding r a(1,2,3) by simp
qed

section \<open>The dispatch, whatever the campaigns\<close>




lemma actionTrace_dispatch: "list_all dispatchEntry (actionTrace ctx a)"
  by (simp add: actionTrace_def split: sum.splits option.splits)

lemma actionsTrace_dispatch: "list_all dispatchEntry (actionsTrace ids ctx as)"
  by (induction as) (simp_all add: actionTrace_dispatch)

lemma executionTrace_dispatch: "list_all dispatchEntry (executionTrace ids ctx c)"
  by (simp add: executionTrace_def actionsTrace_dispatch split: option.splits sum.splits)

lemma campaignTrace_dispatch: "list_all dispatchEntry (campaignTrace ids ctx c)"
  by (simp add: campaignTrace_def executionTrace_dispatch)

lemma evaluateCampaignTrigger_total:
  "\<exists>b s'. evaluateCampaignTrigger cid ctx s = (Inr b, s') \<and> sameLedger s s'
      \<and> (\<exists>ys. logs s' = logs s @ ys \<and> list_all dispatchEntry ys)"
proof (cases "findCampaign s cid")
  case None
  then have "evaluateCampaignTrigger cid ctx s = (Inr False, s)"
    by (simp add: evaluateCampaignTrigger_def ret_def)
  then show ?thesis
    by (intro exI[of _ False] exI[of _ s]) (simp add: sameLedger_refl)
next
  case (Some c)
  show ?thesis
    unfolding evaluateCampaignTrigger_spec[OF Some]
    by (simp add: sameLedger_def)
qed

lemma executeCampaign_total:
  "\<exists>s'. executeCampaign cid ctx now s = (Inr (), s') \<and> sameLedger s s'
      \<and> (\<exists>ys. logs s' = logs s @ ys \<and> list_all dispatchEntry ys)"
proof (cases "findCampaign s cid")
  case None
  then show ?thesis
    by (simp add: executeCampaign_def ret_def sameLedger_refl)
next
  case (Some c)
  then have "cmp_id c = cid"
    unfolding findCampaign_def by (auto dest: find_Some_mem)
  from executeCampaign_spec[OF Some this, of ctx now] show ?thesis
    using executionTrace_dispatch by blast
qed

lemma campaignLoop_total:
  "\<exists>s'. campaignLoop cs ctx now s = (Inr (), s') \<and> sameLedger s s'
      \<and> (\<exists>ys. logs s' = logs s @ ys \<and> list_all dispatchEntry ys)"
proof (induction cs arbitrary: s)
  case Nil
  show ?case by (simp add: ret_def sameLedger_refl)
next
  case (Cons c cs)
  from evaluateCampaignTrigger_total[of "cmp_id c" ctx s] obtain b s0 ys0 where
    e: "evaluateCampaignTrigger (cmp_id c) ctx s = (Inr b, s0)" "sameLedger s s0"
       "logs s0 = logs s @ ys0" "list_all dispatchEntry ys0"
    by blast
  have "\<exists>s1 ys1. whenE b (executeCampaign (cmp_id c) ctx now) s0 = (Inr (), s1) \<and> sameLedger s0 s1
          \<and> logs s1 = logs s0 @ ys1 \<and> list_all dispatchEntry ys1"
  proof (cases b)
    case True
    then show ?thesis
      using executeCampaign_total[of "cmp_id c" ctx now s0] by (auto simp: whenE_def)
  next
    case False
    then show ?thesis
      by (simp add: whenE_def ret_def sameLedger_refl)
  qed
  then obtain s1 ys1 where
    x: "whenE b (executeCampaign (cmp_id c) ctx now) s0 = (Inr (), s1)" "sameLedger s0 s1"
       "logs s1 = logs s0 @ ys1" "list_all dispatchEntry ys1"
    by blast
  from Cons.IH[of s1] obtain s' ys where
    r: "campaignLoop cs ctx now s1 = (Inr (), s')" "sameLedger s1 s'"
       "logs s' = logs s1 @ ys" "list_all dispatchEntry ys"
    by blast
  have "campaignLoop (c # cs) ctx now s = (Inr (), s')"
    by (simp add: thenDo_def e(1) x(1) r(1))
  moreover have "sameLedger s s'"
    using e(2) x(2) r(2) sameLedger_trans by blast
  moreover have "logs s' = logs s @ (ys0 @ ys1 @ ys)" and "list_all dispatchEntry (ys0 @ ys1 @ ys)"
    using e(3,4) x(3,4) r(3,4) by simp_all
  ultimately show ?case by blast
qed

lemma checkCampaigns_total:
  "\<exists>s'. checkCampaigns ctx now s = (Inr (), s') \<and> sameLedger s s'
      \<and> (\<exists>ys. logs s' = logs s @ ys \<and> list_all dispatchEntry ys)"
  unfolding checkCampaigns_def by (rule campaignLoop_total)

section \<open>The services, for a lead of the store\<close>



lemma actionsTrace_all:
  "list_all (actionRuns ids ctx) as \<Longrightarrow> actionsTrace ids ctx as = concat (map (actionTrace ctx) as)"
  by (induction as) simp_all

lemma actionsTrace_prefix:
  "list_all (actionRuns ids ctx) as \<Longrightarrow> \<not> actionRuns ids ctx a \<Longrightarrow>
     actionsTrace ids ctx (as @ a # bs) = concat (map (actionTrace ctx) as)"
  by (induction as) simp_all

section \<open>score.changed\<close>

lemma whenE_logE:
  "whenE b (logE e) s = (Inr (), s\<lparr>logs := logs s @ (if b then [e] else [])\<rparr>)"
  by (simp add: whenE_def logE_def ret_def)

lemma handleScoreAutomations_spec:
  "handleScoreAutomations lead n s = (Inr (), s\<lparr>logs := logs s @ scoreAutomationLogs lead n\<rparr>)"
  by (simp add: handleScoreAutomations_def thenDo_def whenE_logE scoreAutomationLogs_def)

lemma handleScoreChanged_small:
  assumes "findLead s leadId = Some lead" and "\<bar>newScore - oldScore\<bar> < 20"
  shows "handleScoreChanged leadId oldScore newScore now s = (Inr (), s)"
  using assms by (simp add: handleScoreChanged_def ret_def)

lemma handleScoreChanged_state:
  assumes "findLead s leadId = Some lead" and "20 \<le> \<bar>newScore - oldScore\<bar>"
    and "distinct (map cmp_id (campaigns s))"
  shows "handleScoreChanged leadId oldScore newScore now s =
           (Inr (),
            s\<lparr>leads := map (leadAfter (scoreChangedEvent lead) now
                          (concat (map (statusesSet (map lead_id (leads s)) (scoreChangedEvent lead))
                                     (filter (inScope (scoreChangedEvent lead)) (campaigns s)))))
                        (leads s),
              campaigns :=
                map (\<lambda>x. if inScope (scoreChangedEvent lead) x
                          then campaignAfter now (map lead_id (leads s)) (scoreChangedEvent lead) x
                          else x) (campaigns s),
              logs := logs s @ TriggerLog SCORE_CHANGED leadId # scoreAutomationLogs lead newScore
                 @ concat (map (campaignTrace (map lead_id (leads s)) (scoreChangedEvent lead))
                            (filter (inScope (scoreChangedEvent lead)) (campaigns s)))\<rparr>)"
proof -
  have lid: "lead_id lead = leadId"
    using assms(1) unfolding findLead_def by (auto dest: find_Some_mem)
  define ev where "ev = scoreChangedEvent lead"
  define ns where "ns = scoreAutomationLogs lead newScore"
  define s1 where "s1 = s\<lparr>logs := logs s @ TriggerLog SCORE_CHANGED leadId # ns\<rparr>"
  have s1: "campaigns s1 = campaigns s" "leads s1 = leads s"
    "logs s1 = logs s @ TriggerLog SCORE_CHANGED leadId # ns"
    by (simp_all add: s1_def)
  have d1: "distinct (map cmp_id (campaigns s1))" using assms(3) s1(1) by simp
  have evd: "\<lparr>ctx_trigger = SCORE_CHANGED, ctx_agentId = lead_agentId lead,
              ctx_leadId = Some leadId, ctx_policyId = None\<rparr> = ev"
    by (simp add: ev_def scoreChangedEvent_def lid)
  have "handleScoreChanged leadId oldScore newScore now s = checkCampaigns ev now s1"
    using assms(2)
    by (simp add: handleScoreChanged_def assms(1) thenDo_def logE_def evd
        handleScoreAutomations_spec ns_def[symmetric] s1_def)
  also note checkCampaigns_state[OF d1, of ev now]
  finally show ?thesis
    unfolding s1 ev_def[symmetric] ns_def[symmetric] by (simp add: s1_def)
qed

section \<open>The trigger dispatcher: score.changed\<close>

lemma takeWhile_all: "list_all P as \<Longrightarrow> takeWhile P as = as"
  by (induction as) simp_all

lemma takeWhile_prefix: "list_all P as \<Longrightarrow> \<not> P a \<Longrightarrow> takeWhile P (as @ a # bs) = as"
  by (induction as) simp_all

lemma goodCampaign:
  assumes "triggerMatches ctx c" and "cmp_actions c = Some (JArr as)"
    and "list_all (actionRuns ids ctx) as"
  shows "campaignTrace ids ctx c =
           CampaignLog (cmp_id c) (ctx_trigger ctx) # concat (map (actionTrace ctx) as)"
    and "campaignAfter now ids ctx c = c\<lparr>cmp_runCount := cmp_runCount c + 1, cmp_lastRunAt := Some now\<rparr>"
    and "statusesSet ids ctx c = List.map_filter (statusSet ctx) as"
proof -
  have nf: "\<not> triggerFails c"
    using assms(1) by (auto simp: triggerMatches_def triggerFails_def split: option.splits sum.splits)
  show "campaignTrace ids ctx c =
           CampaignLog (cmp_id c) (ctx_trigger ctx) # concat (map (actionTrace ctx) as)"
    using assms nf by (simp add: campaignTrace_def executionTrace_def actionsTrace_all)
  show "campaignAfter now ids ctx c = c\<lparr>cmp_runCount := cmp_runCount c + 1, cmp_lastRunAt := Some now\<rparr>"
    using assms by (simp add: campaignAfter_def actionsComplete_def ranOnce_def)
  show "statusesSet ids ctx c = List.map_filter (statusSet ctx) as"
    using assms by (simp add: statusesSet_def takeWhile_all)
qed

lemma stoppedCampaign:
  assumes "triggerMatches ctx c" and "cmp_actions c = Some (JArr (as @ a # bs))"
    and "list_all (actionRuns ids ctx) as" and "\<not> actionRuns ids ctx a"
  shows "campaignTrace ids ctx c =
           CampaignLog (cmp_id c) (ctx_trigger ctx) # concat (map (actionTrace ctx) as)
             @ [CampaignFailedLog (cmp_id c)]"
    and "campaignAfter now ids ctx c = c"
    and "statusesSet ids ctx c = List.map_filter (statusSet ctx) as"
proof -
  have nf: "\<not> triggerFails c"
    using assms(1) by (auto simp: triggerMatches_def triggerFails_def split: option.splits sum.splits)
  show "campaignTrace ids ctx c =
           CampaignLog (cmp_id c) (ctx_trigger ctx) # concat (map (actionTrace ctx) as)
             @ [CampaignFailedLog (cmp_id c)]"
    using assms nf
    by (simp add: campaignTrace_def executionTrace_def actionsTrace_prefix)
  show "campaignAfter now ids ctx c = c"
    using assms by (simp add: campaignAfter_def actionsComplete_def)
  show "statusesSet ids ctx c = List.map_filter (statusSet ctx) as"
    using assms by (simp add: statusesSet_def takeWhile_prefix)
qed

text \<open>
  C3, amended. For a score-changed event of a lead of the store (campaign ids are unique in
  the store): when the new score differs from the old one by less than 20, nothing happens at
  all: no campaign is looked at, no action runs, the store is unchanged. When it differs by
  at least 20, the call returns and the store after it is the store before it with three
  fields rewritten. The log has, after the line of the event and the lines of the score
  automations, for each active campaign of the lead's agent, in the order of the store, the
  lines of that campaign and nothing else; each of these campaigns is as its own outcome
  says; the lead of the event has the last status that an executed action stored, and is
  marked as updated when there is one.

  For such a campaign \<open>c\<close> whose trigger is \<open>score.changed\<close>: when its stored actions are
  a list all of whose members run, its lines are the line of its execution followed by the
  line of each action, once each and in order, the statuses it stores are those of its
  actions in order, and its run count is one more, with \<open>lastRunAt\<close> set. When the action
  \<open>a\<close> after the actions \<open>as\<close> throws, its lines are the line of its execution, the lines of
  \<open>as\<close> and the line of the failure; the statuses it stores are those of \<open>as\<close>; the actions
  \<open>bs\<close> after \<open>a\<close> leave no trace, and the campaign is as it was: its run count is not
  incremented.
\<close>

theorem handleScoreChanged_dispatch:
  assumes "findLead s leadId = Some lead" and "distinct (map cmp_id (campaigns s))"
  shows "(\<bar>newScore - oldScore\<bar> < 20 \<longrightarrow>
            handleScoreChanged leadId oldScore newScore now s = (Inr (), s))
       \<and> (20 \<le> \<bar>newScore - oldScore\<bar> \<longrightarrow>
            handleScoreChanged leadId oldScore newScore now s =
              (Inr (),
               s\<lparr>leads := map (leadAfter (scoreChangedEvent lead) now
                             (concat (map (statusesSet (map lead_id (leads s)) (scoreChangedEvent lead))
                                        (filter (inScope (scoreChangedEvent lead)) (campaigns s)))))
                           (leads s),
                 campaigns :=
                   map (\<lambda>x. if inScope (scoreChangedEvent lead) x
                             then campaignAfter now (map lead_id (leads s)) (scoreChangedEvent lead) x
                             else x) (campaigns s),
                 logs := logs s @ TriggerLog SCORE_CHANGED leadId # scoreAutomationLogs lead newScore
                    @ concat (map (campaignTrace (map lead_id (leads s)) (scoreChangedEvent lead))
                               (filter (inScope (scoreChangedEvent lead)) (campaigns s)))\<rparr>))
       \<and> (c \<in> set (campaigns s) \<and> cmp_active c \<and> cmp_agentId c = lead_agentId lead
            \<and> cmp_triggerCondition c = Some j
            \<and> getProp j ''trigger'' = Inr (Some (JStr ''score.changed''))
            \<and> cmp_actions c = Some (JArr as)
            \<and> list_all (actionRuns (map lead_id (leads s)) (scoreChangedEvent lead)) as
          \<longrightarrow> c \<in> set (filter (inScope (scoreChangedEvent lead)) (campaigns s))
            \<and> campaignTrace (map lead_id (leads s)) (scoreChangedEvent lead) c
                = CampaignLog (cmp_id c) SCORE_CHANGED
                    # concat (map (actionTrace (scoreChangedEvent lead)) as)
            \<and> statusesSet (map lead_id (leads s)) (scoreChangedEvent lead) c
                = List.map_filter (statusSet (scoreChangedEvent lead)) as
            \<and> campaignAfter now (map lead_id (leads s)) (scoreChangedEvent lead) c
                = c\<lparr>cmp_runCount := cmp_runCount c + 1, cmp_lastRunAt := Some now\<rparr>)
       \<and> (c \<in> set (campaigns s) \<and> cmp_active c \<and> cmp_agentId c = lead_agentId lead
            \<and> cmp_triggerCondition c = Some j
            \<and> getProp j ''trigger'' = Inr (Some (JStr ''score.changed''))
            \<and> cmp_actions c = Some (JArr (as @ a # bs))
            \<and> list_all (actionRuns (map lead_id (leads s)) (scoreChangedEvent lead)) as
            \<and> \<not> actionRuns (map lead_id (leads s)) (scoreChangedEvent lead) a
          \<longrightarrow> c \<in> set (filter (inScope (scoreChangedEvent lead)) (campaigns s))
            \<and> campaignTrace (map lead_id (leads s)) (scoreChangedEvent lead) c
                = CampaignLog (cmp_id c) SCORE_CHANGED
                    # concat (map (actionTrace (scoreChangedEvent lead)) as)
                    @ [CampaignFailedLog (cmp_id c)]
            \<and> statusesSet (map lead_id (leads s)) (scoreChangedEvent lead) c
                = List.map_filter (statusSet (scoreChangedEvent lead)) as
            \<and> campaignAfter now (map lead_id (leads s)) (scoreChangedEvent lead) c = c)"
proof (intro conjI impI)
  assume "\<bar>newScore - oldScore\<bar> < 20"
  then show "handleScoreChanged leadId oldScore newScore now s = (Inr (), s)"
    using assms(1) by (rule handleScoreChanged_small[rotated])
next
  assume big: "20 \<le> \<bar>newScore - oldScore\<bar>"
  show "handleScoreChanged leadId oldScore newScore now s =
              (Inr (),
               s\<lparr>leads := map (leadAfter (scoreChangedEvent lead) now
                             (concat (map (statusesSet (map lead_id (leads s)) (scoreChangedEvent lead))
                                        (filter (inScope (scoreChangedEvent lead)) (campaigns s)))))
                           (leads s),
                 campaigns :=
                   map (\<lambda>x. if inScope (scoreChangedEvent lead) x
                             then campaignAfter now (map lead_id (leads s)) (scoreChangedEvent lead) x
                             else x) (campaigns s),
                 logs := logs s @ TriggerLog SCORE_CHANGED leadId # scoreAutomationLogs lead newScore
                    @ concat (map (campaignTrace (map lead_id (leads s)) (scoreChangedEvent lead))
                               (filter (inScope (scoreChangedEvent lead)) (campaigns s)))\<rparr>)"
    by (rule handleScoreChanged_state[OF assms(1) big assms(2)])
next
  let ?ev = "scoreChangedEvent lead"
  let ?ids = "map lead_id (leads s)"
  assume h: "c \<in> set (campaigns s) \<and> cmp_active c \<and> cmp_agentId c = lead_agentId lead
            \<and> cmp_triggerCondition c = Some j
            \<and> getProp j ''trigger'' = Inr (Some (JStr ''score.changed''))
            \<and> cmp_actions c = Some (JArr as)
            \<and> list_all (actionRuns ?ids ?ev) as"
  have sc: "inScope ?ev c"
    using h by (simp add: inScope_def scoreChangedEvent_def)
  have tm: "triggerMatches ?ev c"
    using h by (simp add: triggerMatches_def scoreChangedEvent_def)
  have tr: "ctx_trigger ?ev = SCORE_CHANGED"
    by (simp add: scoreChangedEvent_def)
  have acts: "cmp_actions c = Some (JArr as)" and runs: "list_all (actionRuns ?ids ?ev) as"
    using h by simp_all
  show "c \<in> set (filter (inScope ?ev) (campaigns s))"
    using h sc by simp
  show "campaignTrace ?ids ?ev c = CampaignLog (cmp_id c) SCORE_CHANGED # concat (map (actionTrace ?ev) as)"
    using goodCampaign(1)[OF tm acts runs] by (simp add: tr)
  show "statusesSet ?ids ?ev c = List.map_filter (statusSet ?ev) as"
    by (rule goodCampaign(3)[OF tm acts runs])
  show "campaignAfter now ?ids ?ev c = c\<lparr>cmp_runCount := cmp_runCount c + 1, cmp_lastRunAt := Some now\<rparr>"
    by (rule goodCampaign(2)[OF tm acts runs])
next
  let ?ev = "scoreChangedEvent lead"
  let ?ids = "map lead_id (leads s)"
  assume h: "c \<in> set (campaigns s) \<and> cmp_active c \<and> cmp_agentId c = lead_agentId lead
            \<and> cmp_triggerCondition c = Some j
            \<and> getProp j ''trigger'' = Inr (Some (JStr ''score.changed''))
            \<and> cmp_actions c = Some (JArr (as @ a # bs))
            \<and> list_all (actionRuns ?ids ?ev) as
            \<and> \<not> actionRuns ?ids ?ev a"
  have sc: "inScope ?ev c"
    using h by (simp add: inScope_def scoreChangedEvent_def)
  have tm: "triggerMatches ?ev c"
    using h by (simp add: triggerMatches_def scoreChangedEvent_def)
  have tr: "ctx_trigger ?ev = SCORE_CHANGED"
    by (simp add: scoreChangedEvent_def)
  have acts: "cmp_actions c = Some (JArr (as @ a # bs))"
    and runs: "list_all (actionRuns ?ids ?ev) as" and fails: "\<not> actionRuns ?ids ?ev a"
    using h by simp_all
  show "c \<in> set (filter (inScope ?ev) (campaigns s))"
    using h sc by simp
  show "campaignTrace ?ids ?ev c = CampaignLog (cmp_id c) SCORE_CHANGED
          # concat (map (actionTrace ?ev) as) @ [CampaignFailedLog (cmp_id c)]"
    using stoppedCampaign(1)[OF tm acts runs fails] by (simp add: tr)
  show "statusesSet ?ids ?ev c = List.map_filter (statusSet ?ev) as"
    by (rule stoppedCampaign(3)[OF tm acts runs fails])
  show "campaignAfter now ?ids ?ev c = c"
    by (rule stoppedCampaign(2)[OF tm acts runs fails])
qed

section \<open>The example store\<close>

lemma exStoreWith_simps:
  "leads (exStoreWith cs) = [exLead L_NEW]" "campaigns (exStoreWith cs) = cs"
  "logs (exStoreWith cs) = []"
  "findLead (exStoreWith cs) ''lead-1'' = Some (exLead L_NEW)"
  "map lead_id (leads (exStoreWith cs)) = [''lead-1'']"
  "lead_id (exLead st) = ''lead-1''"
  by (simp_all add: exStoreWith_def exStore_def findLead_def exLead_def)

lemma exCampaign_simps:
  "cmp_id (exCampaign i t a) = i" "cmp_agentId (exCampaign i t a) = ''1''"
  "cmp_active (exCampaign i t a)" "cmp_triggerCondition (exCampaign i t a) = t"
  "cmp_actions (exCampaign i t a) = a"
  by (simp_all add: exCampaign_def)

lemma scoreChangedEvent_ex:
  "ctx_trigger (scoreChangedEvent (exLead st)) = SCORE_CHANGED"
  "ctx_agentId (scoreChangedEvent (exLead st)) = ''1''"
  "ctx_leadId (scoreChangedEvent (exLead st)) = Some ''lead-1''"
  "lead_agentId (exLead st) = ''1''" "lead_id (exLead st) = ''lead-1''"
  by (simp_all add: scoreChangedEvent_def exLead_def)

lemma noteAction_facts:
  "actionRuns ids ctx (noteAction n)" "actionTrace ctx (noteAction n) = [ActionLog (noteAction n)]"
  by (simp_all add: actionRuns_def actionTrace_def noteAction_def)

lemma statusAction_facts:
  "ctx_leadId ctx = Some ''lead-1'' \<Longrightarrow> actionRuns [''lead-1''] ctx (statusAction ''CONTACTED'')"
  "ctx_leadId ctx = Some ''lead-1'' \<Longrightarrow> \<not> actionRuns [''lead-1''] ctx (statusAction ''BOGUS'')"
  "ctx_leadId ctx = Some ''lead-1'' \<Longrightarrow>
     actionTrace ctx (statusAction ''CONTACTED'') = [ActionLog (statusAction ''CONTACTED'')]"
  by (simp_all add: actionRuns_def actionTrace_def statusAction_def)

lemma statusSet_facts:
  "statusSet ctx (noteAction n) = None"
  "ctx_leadId ctx = Some ''lead-1'' \<Longrightarrow> statusSet ctx (statusAction ''CONTACTED'') = Some L_CONTACTED"
  by (simp_all add: statusSet_def noteAction_def statusAction_def)

lemma null_fails: "\<not> actionRuns ids ctx JNull"
  by (simp add: actionRuns_def)

lemma triggerOn_matches:
  "triggerMatches ctx (exCampaign i (triggerOn t) a) \<longleftrightarrow> ctx_trigger ctx = t"
  "\<not> triggerFails (exCampaign i (triggerOn t) a)"
  by (cases t; cases "ctx_trigger ctx";
      simp add: triggerMatches_def triggerFails_def exCampaign_def triggerOn_def)+

text \<open>
  C3, as stated: a score change of at least 20 executes every action of every active
  score.changed campaign and increments its run count. Here the score moves from 10 to 35 and
  the campaign's second action sets a status that is no member of LeadStatus: the first action
  runs, the failure is logged, the third action never runs and the campaign is unchanged, its
  run count still 0.
\<close>

theorem handleScoreChanged_failing_action:
  "logs (snd (handleScoreChanged ''lead-1'' 10 35 0
      (exStoreWith [exCampaign ''c1'' (triggerOn SCORE_CHANGED)
         (Some (JArr [noteAction ''first'', statusAction ''BOGUS'', noteAction ''last'']))])))
     = [TriggerLog SCORE_CHANGED ''lead-1'', CampaignLog ''c1'' SCORE_CHANGED,
        ActionLog (noteAction ''first''), CampaignFailedLog ''c1'']
   \<and> campaigns (snd (handleScoreChanged ''lead-1'' 10 35 0
      (exStoreWith [exCampaign ''c1'' (triggerOn SCORE_CHANGED)
         (Some (JArr [noteAction ''first'', statusAction ''BOGUS'', noteAction ''last'']))])))
     = [exCampaign ''c1'' (triggerOn SCORE_CHANGED)
         (Some (JArr [noteAction ''first'', statusAction ''BOGUS'', noteAction ''last'']))]"
proof -
  let ?c = "exCampaign ''c1'' (triggerOn SCORE_CHANGED)
         (Some (JArr [noteAction ''first'', statusAction ''BOGUS'', noteAction ''last'']))"
  let ?s = "exStoreWith [?c]"
  let ?ev = "scoreChangedEvent (exLead L_NEW)"
  have d: "distinct (map cmp_id (campaigns ?s))"
    by (simp add: exStoreWith_simps)
  have big: "(20::int) \<le> \<bar>35 - 10\<bar>" by simp
  have sc: "inScope ?ev ?c"
    by (simp add: inScope_def exCampaign_simps scoreChangedEvent_ex)
  have tm: "triggerMatches ?ev ?c"
    by (simp add: triggerOn_matches scoreChangedEvent_ex)
  have acts: "cmp_actions ?c = Some (JArr ([noteAction ''first''] @ statusAction ''BOGUS'' # [noteAction ''last'']))"
    by (simp add: exCampaign_simps)
  have runs: "list_all (actionRuns [''lead-1''] ?ev) [noteAction ''first'']"
    by (simp add: noteAction_facts)
  have fails: "\<not> actionRuns [''lead-1''] ?ev (statusAction ''BOGUS'')"
    by (simp add: statusAction_facts scoreChangedEvent_ex)
  have ct: "campaignTrace [''lead-1''] ?ev ?c =
      [CampaignLog ''c1'' SCORE_CHANGED, ActionLog (noteAction ''first''), CampaignFailedLog ''c1'']"
    using stoppedCampaign(1)[OF tm acts runs fails]
    by (simp add: exCampaign_simps scoreChangedEvent_ex noteAction_facts)
  have ca: "campaignAfter 0 [''lead-1''] ?ev ?c = ?c"
    by (rule stoppedCampaign(2)[OF tm acts runs fails])
  have al: "scoreAutomationLogs (exLead L_NEW) 35 = []"
    by (simp add: scoreAutomationLogs_def)
  have "handleScoreChanged ''lead-1'' 10 35 0 ?s =
      (Inr (), ?s\<lparr>leads := map (leadAfter ?ev 0 (statusesSet [''lead-1''] ?ev ?c)) [exLead L_NEW],
                  campaigns := [?c],
                  logs := [TriggerLog SCORE_CHANGED ''lead-1'', CampaignLog ''c1'' SCORE_CHANGED,
                           ActionLog (noteAction ''first''), CampaignFailedLog ''c1'']\<rparr>)"
    unfolding handleScoreChanged_state[OF exStoreWith_simps(4) big d, of 0]
    by (simp add: exStoreWith_simps scoreChangedEvent_ex sc ct ca al)
  then show ?thesis by simp
qed

text \<open>
  The amended C3 at a store with one lead and two score.changed campaigns, the first of two
  actions that run, the second with a status that is no member of LeadStatus in the middle. A
  change from 10 to 15 leaves the store as it is. A change from 10 to 35, at time 7, runs
  both actions of the first campaign, once each, and brings its run count to 1; the lead is
  CONTACTED; the second campaign stops at its second action and keeps its run count 0.
\<close>

theorem handleScoreChanged_dispatch_witness:
  "findLead (exStoreWith
      [exCampaign ''c1'' (triggerOn SCORE_CHANGED)
         (Some (JArr [noteAction ''first'', statusAction ''CONTACTED''])),
       exCampaign ''c2'' (triggerOn SCORE_CHANGED)
         (Some (JArr [noteAction ''second'', statusAction ''BOGUS'', noteAction ''last'']))]) ''lead-1''
     = Some (exLead L_NEW)
   \<and> distinct (map cmp_id (campaigns (exStoreWith
      [exCampaign ''c1'' (triggerOn SCORE_CHANGED)
         (Some (JArr [noteAction ''first'', statusAction ''CONTACTED''])),
       exCampaign ''c2'' (triggerOn SCORE_CHANGED)
         (Some (JArr [noteAction ''second'', statusAction ''BOGUS'', noteAction ''last'']))])))
   \<and> handleScoreChanged ''lead-1'' 10 15 7
       (exStoreWith
         [exCampaign ''c1'' (triggerOn SCORE_CHANGED)
            (Some (JArr [noteAction ''first'', statusAction ''CONTACTED''])),
          exCampaign ''c2'' (triggerOn SCORE_CHANGED)
            (Some (JArr [noteAction ''second'', statusAction ''BOGUS'', noteAction ''last'']))])
     = (Inr (), exStoreWith
         [exCampaign ''c1'' (triggerOn SCORE_CHANGED)
            (Some (JArr [noteAction ''first'', statusAction ''CONTACTED''])),
          exCampaign ''c2'' (triggerOn SCORE_CHANGED)
            (Some (JArr [noteAction ''second'', statusAction ''BOGUS'', noteAction ''last'']))])
   \<and> handleScoreChanged ''lead-1'' 10 35 7
       (exStoreWith
         [exCampaign ''c1'' (triggerOn SCORE_CHANGED)
            (Some (JArr [noteAction ''first'', statusAction ''CONTACTED''])),
          exCampaign ''c2'' (triggerOn SCORE_CHANGED)
            (Some (JArr [noteAction ''second'', statusAction ''BOGUS'', noteAction ''last'']))])
     = (Inr (),
        (exStoreWith
         [exCampaign ''c1'' (triggerOn SCORE_CHANGED)
            (Some (JArr [noteAction ''first'', statusAction ''CONTACTED''])),
          exCampaign ''c2'' (triggerOn SCORE_CHANGED)
            (Some (JArr [noteAction ''second'', statusAction ''BOGUS'', noteAction ''last'']))])
        \<lparr>leads := [(exLead L_NEW)\<lparr>lead_status := L_CONTACTED, lead_updatedAt := 7\<rparr>],
          campaigns :=
            [(exCampaign ''c1'' (triggerOn SCORE_CHANGED)
                (Some (JArr [noteAction ''first'', statusAction ''CONTACTED''])))
               \<lparr>cmp_runCount := 1, cmp_lastRunAt := Some 7\<rparr>,
             exCampaign ''c2'' (triggerOn SCORE_CHANGED)
               (Some (JArr [noteAction ''second'', statusAction ''BOGUS'', noteAction ''last'']))],
          logs :=
            [TriggerLog SCORE_CHANGED ''lead-1'',
             CampaignLog ''c1'' SCORE_CHANGED, ActionLog (noteAction ''first''),
             ActionLog (statusAction ''CONTACTED''),
             CampaignLog ''c2'' SCORE_CHANGED, ActionLog (noteAction ''second''),
             CampaignFailedLog ''c2'']\<rparr>)"
proof -
  define c1 where "c1 = exCampaign ''c1'' (triggerOn SCORE_CHANGED)
         (Some (JArr [noteAction ''first'', statusAction ''CONTACTED'']))"
  define c2 where "c2 = exCampaign ''c2'' (triggerOn SCORE_CHANGED)
         (Some (JArr [noteAction ''second'', statusAction ''BOGUS'', noteAction ''last'']))"
  define s where "s = exStoreWith [c1, c2]"
  define lead where "lead = exLead L_NEW"
  define ev where "ev = scoreChangedEvent lead"
  define ids where "ids = [''lead-1'']"
  define j where "j = JObj [(''trigger'', JStr (triggerValue SCORE_CHANGED))]"
  have cs: "campaigns s = [c1, c2]" and ls: "map lead_id (leads s) = ids" and lg: "logs s = []"
    and ld: "leads s = [lead]"
    by (simp_all add: s_def ids_def lead_def exStoreWith_simps)
  have l: "findLead s ''lead-1'' = Some lead"
    unfolding s_def lead_def by (rule exStoreWith_simps)
  have cid: "cmp_id c1 = ''c1''" "cmp_id c2 = ''c2''"
    by (simp_all add: c1_def c2_def exCampaign_simps)
  have d: "distinct (map cmp_id (campaigns s))"
    by (simp add: cs cid)
  have evf: "ctx_leadId ev = Some ''lead-1''" "ctx_trigger ev = SCORE_CHANGED"
    by (simp_all add: ev_def lead_def scoreChangedEvent_ex)
  have sc: "inScope ev c1" "inScope ev c2"
    by (simp_all add: inScope_def c1_def c2_def ev_def lead_def exCampaign_simps scoreChangedEvent_ex)
  have gj: "getProp j ''trigger'' = Inr (Some (JStr ''score.changed''))"
    by (simp add: j_def)
  have h1: "c1 \<in> set (campaigns s) \<and> cmp_active c1 \<and> cmp_agentId c1 = lead_agentId lead
            \<and> cmp_triggerCondition c1 = Some j
            \<and> getProp j ''trigger'' = Inr (Some (JStr ''score.changed''))
            \<and> cmp_actions c1 = Some (JArr [noteAction ''first'', statusAction ''CONTACTED''])
            \<and> list_all (actionRuns (map lead_id (leads s)) (scoreChangedEvent lead))
                 [noteAction ''first'', statusAction ''CONTACTED'']"
    unfolding ls ev_def[symmetric]
    by (simp add: cs gj c1_def exCampaign_simps lead_def scoreChangedEvent_ex triggerOn_def j_def
        ids_def noteAction_facts statusAction_facts evf)
  have h2: "c2 \<in> set (campaigns s) \<and> cmp_active c2 \<and> cmp_agentId c2 = lead_agentId lead
            \<and> cmp_triggerCondition c2 = Some j
            \<and> getProp j ''trigger'' = Inr (Some (JStr ''score.changed''))
            \<and> cmp_actions c2 = Some (JArr ([noteAction ''second''] @ statusAction ''BOGUS'' # [noteAction ''last'']))
            \<and> list_all (actionRuns (map lead_id (leads s)) (scoreChangedEvent lead))
                 [noteAction ''second'']
            \<and> \<not> actionRuns (map lead_id (leads s)) (scoreChangedEvent lead) (statusAction ''BOGUS'')"
    unfolding ls ev_def[symmetric]
    by (simp add: cs gj c2_def exCampaign_simps lead_def scoreChangedEvent_ex triggerOn_def j_def
        ids_def noteAction_facts statusAction_facts evf)
  note T = handleScoreChanged_dispatch[OF l d]
  have small: "handleScoreChanged ''lead-1'' 10 15 7 s = (Inr (), s)"
    using T[where newScore=15 and oldScore=10 and now=7, THEN conjunct1] by simp
  have big: "handleScoreChanged ''lead-1'' 10 35 7 s =
              (Inr (),
               s\<lparr>leads := map (leadAfter ev 7
                             (concat (map (statusesSet ids ev) (filter (inScope ev) (campaigns s)))))
                           (leads s),
                 campaigns :=
                   map (\<lambda>x. if inScope ev x then campaignAfter 7 ids ev x else x) (campaigns s),
                 logs := logs s @ TriggerLog SCORE_CHANGED ''lead-1'' # scoreAutomationLogs lead 35
                    @ concat (map (campaignTrace ids ev) (filter (inScope ev) (campaigns s)))\<rparr>)"
    using T[where newScore=35 and oldScore=10 and now=7, THEN conjunct2, THEN conjunct1]
    unfolding ls ev_def[symmetric] by simp
  note X1 = T[where c=c1 and j=j and as="[noteAction ''first'', statusAction ''CONTACTED'']"
            and now=7, THEN conjunct2, THEN conjunct2, THEN conjunct1, rule_format, OF h1,
            unfolded ls ev_def[symmetric]]
  note X2 = T[where c=c2 and j=j and as="[noteAction ''second'']" and a="statusAction ''BOGUS''"
            and bs="[noteAction ''last'']" and now=7,
            THEN conjunct2, THEN conjunct2, THEN conjunct2, rule_format, OF h2,
            unfolded ls ev_def[symmetric]]
  have t1: "campaignTrace ids ev c1 = [CampaignLog ''c1'' SCORE_CHANGED,
              ActionLog (noteAction ''first''), ActionLog (statusAction ''CONTACTED'')]"
    using X1 by (simp add: cid noteAction_facts statusAction_facts evf)
  have t2: "campaignTrace ids ev c2 = [CampaignLog ''c2'' SCORE_CHANGED,
              ActionLog (noteAction ''second''), CampaignFailedLog ''c2'']"
    using X2 by (simp add: cid noteAction_facts)
  have u1: "statusesSet ids ev c1 = [L_CONTACTED]"
    using X1 by (simp add: List.map_filter_simps statusSet_facts evf)
  have u2: "statusesSet ids ev c2 = []"
    using X2 by (simp add: List.map_filter_simps statusSet_facts)
  have a1: "campaignAfter 7 ids ev c1 = c1\<lparr>cmp_runCount := 1, cmp_lastRunAt := Some 7\<rparr>"
    using X1 by (simp add: c1_def exCampaign_def)
  have a2: "campaignAfter 7 ids ev c2 = c2"
    using X2 by simp
  have al: "scoreAutomationLogs lead 35 = []"
    by (simp add: scoreAutomationLogs_def)
  have la: "leadAfter ev 7 [L_CONTACTED] lead = lead\<lparr>lead_status := L_CONTACTED, lead_updatedAt := 7\<rparr>"
    by (simp add: leadAfter_def evf lead_def exStoreWith_simps)
  have big': "handleScoreChanged ''lead-1'' 10 35 7 s =
      (Inr (), s\<lparr>leads := [lead\<lparr>lead_status := L_CONTACTED, lead_updatedAt := 7\<rparr>],
          campaigns := [c1\<lparr>cmp_runCount := 1, cmp_lastRunAt := Some 7\<rparr>, c2],
          logs := [TriggerLog SCORE_CHANGED ''lead-1'',
             CampaignLog ''c1'' SCORE_CHANGED, ActionLog (noteAction ''first''),
             ActionLog (statusAction ''CONTACTED''),
             CampaignLog ''c2'' SCORE_CHANGED, ActionLog (noteAction ''second''),
             CampaignFailedLog ''c2'']\<rparr>)"
    unfolding big by (simp add: cs sc t1 t2 u1 u2 a1 a2 al la ld lg)
  show ?thesis
    using l d small big' unfolding s_def c1_def c2_def lead_def by (intro conjI)
qed

section \<open>The trigger dispatcher: failures\<close>

lemma failedTrigger:
  assumes "cmp_triggerCondition c = None"
  shows "campaignTrace ids ctx c = [TriggerFailedLog (cmp_id c)]"
    and "statusesSet ids ctx c = []"
    and "campaignAfter now ids ctx c = c"
  using assms by (simp_all add: campaignTrace_def campaignAfter_def triggerFails_def
      triggerMatches_def statusesSet_def)

text \<open>
  C9, as stated: one failing action never prevents the other actions from running. Here the
  second of three actions is \<open>null\<close>: the first action runs, the failure is logged, and
  the third action never runs.
\<close>

theorem checkCampaigns_failing_action_ends_campaign:
  "logs (snd (checkCampaigns
      \<lparr>ctx_trigger = CUSTOM, ctx_agentId = ''1'', ctx_leadId = Some ''lead-1'',
       ctx_policyId = None\<rparr> 0
      (exStoreWith [exCampaign ''c1'' (triggerOn CUSTOM)
         (Some (JArr [noteAction ''first'', JNull, noteAction ''last'']))])))
   = [CampaignLog ''c1'' CUSTOM, ActionLog (noteAction ''first''), CampaignFailedLog ''c1'']"
proof -
  let ?ctx = "\<lparr>ctx_trigger = CUSTOM, ctx_agentId = ''1'', ctx_leadId = Some ''lead-1'',
       ctx_policyId = None\<rparr>"
  let ?c = "exCampaign ''c1'' (triggerOn CUSTOM)
         (Some (JArr [noteAction ''first'', JNull, noteAction ''last'']))"
  let ?s = "exStoreWith [?c]"
  have d: "distinct (map cmp_id (campaigns ?s))"
    by (simp add: exStoreWith_simps)
  have sc: "inScope ?ctx ?c"
    by (simp add: inScope_def exCampaign_simps)
  have tm: "triggerMatches ?ctx ?c"
    by (simp add: triggerOn_matches)
  have acts: "cmp_actions ?c = Some (JArr ([noteAction ''first''] @ JNull # [noteAction ''last'']))"
    by (simp add: exCampaign_simps)
  have runs: "list_all (actionRuns [''lead-1''] ?ctx) [noteAction ''first'']"
    by (simp add: noteAction_facts)
  have ct: "campaignTrace [''lead-1''] ?ctx ?c =
      [CampaignLog ''c1'' CUSTOM, ActionLog (noteAction ''first''), CampaignFailedLog ''c1'']"
    using stoppedCampaign(1)[OF tm acts runs null_fails]
    by (simp add: exCampaign_simps noteAction_facts)
  from checkCampaigns_spec[OF d, of ?ctx 0] obtain s' where
    "checkCampaigns ?ctx 0 ?s = (Inr (), s')"
    "logs s' = [CampaignLog ''c1'' CUSTOM, ActionLog (noteAction ''first''), CampaignFailedLog ''c1'']"
    by (auto simp: exStoreWith_simps scoreChangedEvent_ex sc ct)
  then show ?thesis by simp
qed

text \<open>
  C9, amended. The dispatch of an event to the campaigns never throws, whatever the store,
  and touches no policy, commission, activity or lead id. With unique campaign ids, the store
  after the dispatch is the store before it with three fields rewritten: what is added to the
  log is the concatenation, campaign by campaign in the order of the store, of the lines of
  each active campaign of the agent; each such campaign ends as its own outcome says; the
  lead of the event has the last status that an executed action stored. The lines and the
  outcome of a campaign are a function of that campaign alone, so no campaign's failure
  reaches another campaign or the caller. A campaign whose trigger condition does not parse
  is logged and skipped. Within one campaign the first action that throws ends the
  execution: the actions before it have run, the failure is logged, the actions after it do
  not run and the run count stays. A campaign all of whose actions run is logged with every
  action and its run count is incremented.
\<close>

theorem checkCampaigns_isolates_campaigns:
  "(\<exists>s'. checkCampaigns ctx now s = (Inr (), s') \<and> sameLedger s s')
   \<and> (distinct (map cmp_id (campaigns s)) \<longrightarrow>
        checkCampaigns ctx now s =
          (Inr (),
           s\<lparr>leads := map (leadAfter ctx now
                         (concat (map (statusesSet (map lead_id (leads s)) ctx)
                                    (filter (inScope ctx) (campaigns s))))) (leads s),
             campaigns :=
               map (\<lambda>c. if inScope ctx c then campaignAfter now (map lead_id (leads s)) ctx c else c)
                 (campaigns s),
             logs := logs s @ concat (map (campaignTrace (map lead_id (leads s)) ctx)
                                        (filter (inScope ctx) (campaigns s)))\<rparr>))
   \<and> (cmp_triggerCondition c = None \<longrightarrow>
        campaignTrace ids ctx c = [TriggerFailedLog (cmp_id c)]
        \<and> statusesSet ids ctx c = []
        \<and> campaignAfter now ids ctx c = c)
   \<and> (triggerMatches ctx c \<and> cmp_actions c = Some (JArr (as @ a # bs))
        \<and> list_all (actionRuns ids ctx) as \<and> \<not> actionRuns ids ctx a \<longrightarrow>
        campaignTrace ids ctx c =
          CampaignLog (cmp_id c) (ctx_trigger ctx) # concat (map (actionTrace ctx) as)
            @ [CampaignFailedLog (cmp_id c)]
        \<and> statusesSet ids ctx c = List.map_filter (statusSet ctx) as
        \<and> campaignAfter now ids ctx c = c)
   \<and> (triggerMatches ctx c \<and> cmp_actions c = Some (JArr as)
        \<and> list_all (actionRuns ids ctx) as \<longrightarrow>
        campaignTrace ids ctx c =
          CampaignLog (cmp_id c) (ctx_trigger ctx) # concat (map (actionTrace ctx) as)
        \<and> statusesSet ids ctx c = List.map_filter (statusSet ctx) as
        \<and> campaignAfter now ids ctx c = c\<lparr>cmp_runCount := cmp_runCount c + 1, cmp_lastRunAt := Some now\<rparr>)"
proof (intro conjI impI)
  show "\<exists>s'. checkCampaigns ctx now s = (Inr (), s') \<and> sameLedger s s'"
    using checkCampaigns_total[of ctx now s] by blast
next
  assume "distinct (map cmp_id (campaigns s))"
  then show "checkCampaigns ctx now s =
          (Inr (),
           s\<lparr>leads := map (leadAfter ctx now
                         (concat (map (statusesSet (map lead_id (leads s)) ctx)
                                    (filter (inScope ctx) (campaigns s))))) (leads s),
             campaigns :=
               map (\<lambda>c. if inScope ctx c then campaignAfter now (map lead_id (leads s)) ctx c else c)
                 (campaigns s),
             logs := logs s @ concat (map (campaignTrace (map lead_id (leads s)) ctx)
                                        (filter (inScope ctx) (campaigns s)))\<rparr>)"
    by (rule checkCampaigns_state)
next
  assume "cmp_triggerCondition c = None"
  then show "campaignTrace ids ctx c = [TriggerFailedLog (cmp_id c)]"
    and "statusesSet ids ctx c = []"
    and "campaignAfter now ids ctx c = c"
    by (rule failedTrigger)+
next
  assume h: "triggerMatches ctx c \<and> cmp_actions c = Some (JArr (as @ a # bs))
        \<and> list_all (actionRuns ids ctx) as \<and> \<not> actionRuns ids ctx a"
  then have 1: "triggerMatches ctx c" and 2: "cmp_actions c = Some (JArr (as @ a # bs))"
    and 3: "list_all (actionRuns ids ctx) as" and 4: "\<not> actionRuns ids ctx a"
    by simp_all
  show "campaignTrace ids ctx c =
          CampaignLog (cmp_id c) (ctx_trigger ctx) # concat (map (actionTrace ctx) as)
            @ [CampaignFailedLog (cmp_id c)]"
    by (rule stoppedCampaign(1)[OF 1 2 3 4])
  show "statusesSet ids ctx c = List.map_filter (statusSet ctx) as"
    by (rule stoppedCampaign(3)[OF 1 2 3 4])
  show "campaignAfter now ids ctx c = c"
    by (rule stoppedCampaign(2)[OF 1 2 3 4])
next
  assume h: "triggerMatches ctx c \<and> cmp_actions c = Some (JArr as)
        \<and> list_all (actionRuns ids ctx) as"
  then have 1: "triggerMatches ctx c" and 2: "cmp_actions c = Some (JArr as)"
    and 3: "list_all (actionRuns ids ctx) as"
    by simp_all
  show "campaignTrace ids ctx c =
          CampaignLog (cmp_id c) (ctx_trigger ctx) # concat (map (actionTrace ctx) as)"
    by (rule goodCampaign(1)[OF 1 2 3])
  show "statusesSet ids ctx c = List.map_filter (statusSet ctx) as"
    by (rule goodCampaign(3)[OF 1 2 3])
  show "campaignAfter now ids ctx c = c\<lparr>cmp_runCount := cmp_runCount c + 1, cmp_lastRunAt := Some now\<rparr>"
    by (rule goodCampaign(2)[OF 1 2 3])
qed

text \<open>
  The amended C9 at a store with three campaigns for one event, dispatched at time 7: the
  first has a trigger condition that does not parse, the second a \<open>null\<close> among its
  actions, the third is sound. The first is logged and skipped, the second stops at its
  failing action, and the third still runs: only its run count is incremented, and its second
  action makes the lead CONTACTED.
\<close>

theorem checkCampaigns_isolates_campaigns_witness:
  "distinct (map cmp_id (campaigns (exStoreWith
      [exCampaign ''c1'' None (Some (JArr [noteAction ''never''])),
       exCampaign ''c2'' (triggerOn CUSTOM) (Some (JArr [noteAction ''first'', JNull, noteAction ''last''])),
       exCampaign ''c3'' (triggerOn CUSTOM) (Some (JArr [noteAction ''only'', statusAction ''CONTACTED'']))])))
   \<and> checkCampaigns
          \<lparr>ctx_trigger = CUSTOM, ctx_agentId = ''1'', ctx_leadId = Some ''lead-1'',
           ctx_policyId = None\<rparr> 7
          (exStoreWith
            [exCampaign ''c1'' None (Some (JArr [noteAction ''never''])),
             exCampaign ''c2'' (triggerOn CUSTOM) (Some (JArr [noteAction ''first'', JNull, noteAction ''last''])),
             exCampaign ''c3'' (triggerOn CUSTOM) (Some (JArr [noteAction ''only'', statusAction ''CONTACTED'']))])
       = (Inr (),
          (exStoreWith
            [exCampaign ''c1'' None (Some (JArr [noteAction ''never''])),
             exCampaign ''c2'' (triggerOn CUSTOM) (Some (JArr [noteAction ''first'', JNull, noteAction ''last''])),
             exCampaign ''c3'' (triggerOn CUSTOM) (Some (JArr [noteAction ''only'', statusAction ''CONTACTED'']))])
          \<lparr>leads := [(exLead L_NEW)\<lparr>lead_status := L_CONTACTED, lead_updatedAt := 7\<rparr>],
            campaigns :=
              [exCampaign ''c1'' None (Some (JArr [noteAction ''never''])),
               exCampaign ''c2'' (triggerOn CUSTOM) (Some (JArr [noteAction ''first'', JNull, noteAction ''last''])),
               (exCampaign ''c3'' (triggerOn CUSTOM) (Some (JArr [noteAction ''only'', statusAction ''CONTACTED''])))
                 \<lparr>cmp_runCount := 1, cmp_lastRunAt := Some 7\<rparr>],
            logs :=
              [TriggerFailedLog ''c1'',
               CampaignLog ''c2'' CUSTOM, ActionLog (noteAction ''first''), CampaignFailedLog ''c2'',
               CampaignLog ''c3'' CUSTOM, ActionLog (noteAction ''only''),
               ActionLog (statusAction ''CONTACTED'')]\<rparr>)"
proof -
  define ctx where "ctx = \<lparr>ctx_trigger = CUSTOM, ctx_agentId = ''1'', ctx_leadId = Some ''lead-1'',
           ctx_policyId = None\<rparr>"
  define c1 where "c1 = exCampaign ''c1'' None (Some (JArr [noteAction ''never'']))"
  define c2 where "c2 = exCampaign ''c2'' (triggerOn CUSTOM) (Some (JArr [noteAction ''first'', JNull, noteAction ''last'']))"
  define c3 where "c3 = exCampaign ''c3'' (triggerOn CUSTOM) (Some (JArr [noteAction ''only'', statusAction ''CONTACTED'']))"
  define s where "s = exStoreWith [c1, c2, c3]"
  define ids where "ids = [''lead-1'']"
  define lead where "lead = exLead L_NEW"
  have cs: "campaigns s = [c1, c2, c3]" and ls: "map lead_id (leads s) = ids" and lg: "logs s = []"
    and ld: "leads s = [lead]"
    by (simp_all add: s_def ids_def lead_def exStoreWith_simps)
  have cid: "cmp_id c1 = ''c1''" "cmp_id c2 = ''c2''" "cmp_id c3 = ''c3''"
    by (simp_all add: c1_def c2_def c3_def exCampaign_simps)
  have d: "distinct (map cmp_id (campaigns s))"
    by (simp add: cs cid)
  have sc: "inScope ctx c1" "inScope ctx c2" "inScope ctx c3"
    by (simp_all add: inScope_def c1_def c2_def c3_def ctx_def exCampaign_simps)
  have tr: "ctx_trigger ctx = CUSTOM" and cl: "ctx_leadId ctx = Some ''lead-1''"
    by (simp_all add: ctx_def)
  have h1: "cmp_triggerCondition c1 = None"
    by (simp add: c1_def exCampaign_simps)
  have h2: "triggerMatches ctx c2
        \<and> cmp_actions c2 = Some (JArr ([noteAction ''first''] @ JNull # [noteAction ''last'']))
        \<and> list_all (actionRuns ids ctx) [noteAction ''first''] \<and> \<not> actionRuns ids ctx JNull"
    by (simp add: c2_def triggerOn_matches tr exCampaign_simps noteAction_facts null_fails)
  have h3: "triggerMatches ctx c3
        \<and> cmp_actions c3 = Some (JArr [noteAction ''only'', statusAction ''CONTACTED''])
        \<and> list_all (actionRuns ids ctx) [noteAction ''only'', statusAction ''CONTACTED'']"
    by (simp add: c3_def triggerOn_matches tr exCampaign_simps noteAction_facts
        statusAction_facts cl ids_def)
  note T = checkCampaigns_isolates_campaigns[where ctx=ctx and now=7 and s=s and ids=ids]
  note X1 = T[where c=c1 and as="[]" and a=JNull and bs="[]",
            THEN conjunct2, THEN conjunct2, THEN conjunct1, rule_format, OF h1]
  note X2 = T[where c=c2 and as="[noteAction ''first'']" and a=JNull and bs="[noteAction ''last'']",
            THEN conjunct2, THEN conjunct2, THEN conjunct2, THEN conjunct1, rule_format, OF h2]
  note X3 = T[where c=c3 and as="[noteAction ''only'', statusAction ''CONTACTED'']" and a=JNull
            and bs="[]",
            THEN conjunct2, THEN conjunct2, THEN conjunct2, THEN conjunct2, rule_format, OF h3]
  have t1: "campaignTrace ids ctx c1 = [TriggerFailedLog ''c1'']"
    unfolding X1[THEN conjunct1] cid by (rule refl)
  have t2: "campaignTrace ids ctx c2 =
      [CampaignLog ''c2'' CUSTOM, ActionLog (noteAction ''first''), CampaignFailedLog ''c2'']"
    unfolding X2[THEN conjunct1] cid tr by (simp add: noteAction_facts(2))
  have t3: "campaignTrace ids ctx c3 = [CampaignLog ''c3'' CUSTOM, ActionLog (noteAction ''only''),
      ActionLog (statusAction ''CONTACTED'')]"
    unfolding X3[THEN conjunct1] cid tr by (simp add: noteAction_facts(2) statusAction_facts(3) cl)
  have u1: "statusesSet ids ctx c1 = []"
    by (rule X1[THEN conjunct2, THEN conjunct1])
  have u2: "statusesSet ids ctx c2 = []"
    unfolding X2[THEN conjunct2, THEN conjunct1]
    by (simp add: List.map_filter_simps statusSet_facts)
  have u3: "statusesSet ids ctx c3 = [L_CONTACTED]"
    unfolding X3[THEN conjunct2, THEN conjunct1]
    by (simp add: List.map_filter_simps statusSet_facts cl)
  have a1: "campaignAfter 7 ids ctx c1 = c1"
    by (rule X1[THEN conjunct2, THEN conjunct2])
  have a2: "campaignAfter 7 ids ctx c2 = c2"
    by (rule X2[THEN conjunct2, THEN conjunct2])
  have a3: "campaignAfter 7 ids ctx c3 = c3\<lparr>cmp_runCount := 1, cmp_lastRunAt := Some 7\<rparr>"
    unfolding X3[THEN conjunct2, THEN conjunct2] by (simp add: c3_def exCampaign_def)
  have la: "leadAfter ctx 7 [L_CONTACTED] lead = lead\<lparr>lead_status := L_CONTACTED, lead_updatedAt := 7\<rparr>"
    by (simp add: leadAfter_def cl lead_def exStoreWith_simps)
  note R = T[where c=c1 and as="[]" and a=JNull and bs="[]",
         THEN conjunct2, THEN conjunct1, rule_format, OF d, unfolded ls]
  have E: "checkCampaigns ctx 7 s =
      (Inr (), s\<lparr>leads := [lead\<lparr>lead_status := L_CONTACTED, lead_updatedAt := 7\<rparr>],
            campaigns := [c1, c2, c3\<lparr>cmp_runCount := 1, cmp_lastRunAt := Some 7\<rparr>],
            logs :=
              [TriggerFailedLog ''c1'',
               CampaignLog ''c2'' CUSTOM, ActionLog (noteAction ''first''), CampaignFailedLog ''c2'',
               CampaignLog ''c3'' CUSTOM, ActionLog (noteAction ''only''),
               ActionLog (statusAction ''CONTACTED'')]\<rparr>)"
    unfolding R by (simp add: cs sc t1 t2 t3 u1 u2 u3 a1 a2 a3 la ld lg)
  from d E show ?thesis
    unfolding s_def c1_def c2_def c3_def ctx_def lead_def by (rule conjI)
qed

section \<open>The trigger dispatcher: a condition without a trigger\<close>

text \<open>
  C10, as stated: a stored trigger condition that parses and has no \<open>trigger\<close> key matches
  every event. The text \<open>null\<close> parses and has no key at all, but reading the property
  \<open>trigger\<close> of \<open>null\<close> throws: the evaluation logs the failure and returns false, and the
  dispatch of the event skips the campaign, its action never runs.
\<close>

theorem evaluateCampaignTrigger_null_condition:
  "evaluateCampaignTrigger ''c1''
      \<lparr>ctx_trigger = ACTIVITY_LOGGED, ctx_agentId = ''1'', ctx_leadId = Some ''lead-1'',
       ctx_policyId = None\<rparr>
      (exStoreWith [exCampaign ''c1'' (Some JNull) (Some (JArr [noteAction ''only'']))])
     = (Inr False,
        (exStoreWith [exCampaign ''c1'' (Some JNull) (Some (JArr [noteAction ''only'']))])
        \<lparr>logs := [TriggerFailedLog ''c1'']\<rparr>)
   \<and> checkCampaigns
      \<lparr>ctx_trigger = ACTIVITY_LOGGED, ctx_agentId = ''1'', ctx_leadId = Some ''lead-1'',
       ctx_policyId = None\<rparr> 7
      (exStoreWith [exCampaign ''c1'' (Some JNull) (Some (JArr [noteAction ''only'']))])
     = (Inr (),
        (exStoreWith [exCampaign ''c1'' (Some JNull) (Some (JArr [noteAction ''only'']))])
        \<lparr>logs := [TriggerFailedLog ''c1'']\<rparr>)"
proof -
  define ctx where "ctx = \<lparr>ctx_trigger = ACTIVITY_LOGGED, ctx_agentId = ''1'',
       ctx_leadId = Some ''lead-1'', ctx_policyId = None\<rparr>"
  define c where "c = exCampaign ''c1'' (Some JNull) (Some (JArr [noteAction ''only'']))"
  define s where "s = exStoreWith [c]"
  have cs: "campaigns s = [c]" and lg: "logs s = []"
    by (simp_all add: s_def exStoreWith_simps)
  have cid: "cmp_id c = ''c1''" and tc: "cmp_triggerCondition c = Some JNull"
    by (simp_all add: c_def exCampaign_simps)
  have f: "findCampaign s ''c1'' = Some c"
    by (simp add: findCampaign_def cs cid)
  have tf: "triggerFails c" and tm: "\<not> triggerMatches ctx c"
    by (simp_all add: triggerFails_def triggerMatches_def tc)
  have sc: "inScope ctx c"
    by (simp add: inScope_def c_def ctx_def exCampaign_simps)
  have d: "distinct (map cmp_id (campaigns s))"
    by (simp add: cs)
  have 1: "evaluateCampaignTrigger ''c1'' ctx s = (Inr False, s\<lparr>logs := [TriggerFailedLog ''c1'']\<rparr>)"
    using evaluateCampaignTrigger_spec[OF f, of ctx] tf tm by (simp add: lg)
  have 2: "checkCampaigns ctx 7 s = (Inr (), s\<lparr>logs := [TriggerFailedLog ''c1'']\<rparr>)"
    unfolding checkCampaigns_state[OF d, of ctx 7]
    by (simp add: cs sc lg campaignTrace_def statusesSet_def campaignAfter_def tf tm cid
        map_leadAfter_Nil)
  from 1 2 show ?thesis
    unfolding s_def c_def ctx_def by (rule conjI)
qed

text \<open>
  C10, amended. A campaign of the store (campaign ids are unique in it) whose stored trigger
  condition parses to a value other than \<open>null\<close> that has no \<open>trigger\<close> (reading the
  property gives \<open>undefined\<close>: an object without that key, or a boolean, a number, a string
  or an array) matches every event, whatever its trigger kind: the evaluation returns true
  and leaves the store as it is. So, when the campaign is active, every event dispatched for
  its agent executes it: the store after the dispatch is the one the dispatch of an event
  always gives, the campaign is among those dispatched to, its lines are those of an
  execution, and its run count is incremented when all its actions run. When its stored
  actions are a list all of whose members run, the lines are the line of the execution
  followed by the line of each action, once each and in order.
\<close>

theorem evaluateCampaignTrigger_without_trigger:
  assumes "distinct (map cmp_id (campaigns s))" and "c \<in> set (campaigns s)"
    and "cmp_triggerCondition c = Some j" and "j \<noteq> JNull"
    and "getProp j ''trigger'' = Inr None"
  shows "evaluateCampaignTrigger (cmp_id c) ctx s = (Inr True, s)
       \<and> (cmp_active c \<and> cmp_agentId c = ctx_agentId ctx \<longrightarrow>
            checkCampaigns ctx now s =
              (Inr (),
               s\<lparr>leads := map (leadAfter ctx now
                             (concat (map (statusesSet (map lead_id (leads s)) ctx)
                                        (filter (inScope ctx) (campaigns s))))) (leads s),
                 campaigns :=
                   map (\<lambda>c. if inScope ctx c then campaignAfter now (map lead_id (leads s)) ctx c else c)
                     (campaigns s),
                 logs := logs s @ concat (map (campaignTrace (map lead_id (leads s)) ctx)
                                            (filter (inScope ctx) (campaigns s)))\<rparr>)
            \<and> c \<in> set (filter (inScope ctx) (campaigns s))
            \<and> campaignTrace (map lead_id (leads s)) ctx c
                = executionTrace (map lead_id (leads s)) ctx c
            \<and> campaignAfter now (map lead_id (leads s)) ctx c
                = (if actionsComplete (map lead_id (leads s)) ctx c
                   then c\<lparr>cmp_runCount := cmp_runCount c + 1, cmp_lastRunAt := Some now\<rparr>
                   else c))
       \<and> (cmp_actions c = Some (JArr as)
            \<and> list_all (actionRuns (map lead_id (leads s)) ctx) as \<longrightarrow>
            actionsComplete (map lead_id (leads s)) ctx c
            \<and> executionTrace (map lead_id (leads s)) ctx c
                = CampaignLog (cmp_id c) (ctx_trigger ctx) # concat (map (actionTrace ctx) as)
            \<and> statusesSet (map lead_id (leads s)) ctx c = List.map_filter (statusSet ctx) as)"
proof (intro conjI impI)
  let ?ids = "map lead_id (leads s)"
  have f: "findCampaign s (cmp_id c) = Some c"
    unfolding findCampaign_def by (rule find_by_id_distinct[OF assms(1,2)])
  have tm: "triggerMatches ctx c" and nf: "\<not> triggerFails c"
    using assms(3,5) by (simp_all add: triggerMatches_def triggerFails_def)
  show "evaluateCampaignTrigger (cmp_id c) ctx s = (Inr True, s)"
    using evaluateCampaignTrigger_spec[OF f, of ctx] tm nf by simp
  {
    assume "cmp_active c \<and> cmp_agentId c = ctx_agentId ctx"
    then have sc: "inScope ctx c" by (simp add: inScope_def)
    show "checkCampaigns ctx now s =
              (Inr (),
               s\<lparr>leads := map (leadAfter ctx now
                             (concat (map (statusesSet ?ids ctx)
                                        (filter (inScope ctx) (campaigns s))))) (leads s),
                 campaigns :=
                   map (\<lambda>c. if inScope ctx c then campaignAfter now ?ids ctx c else c)
                     (campaigns s),
                 logs := logs s @ concat (map (campaignTrace ?ids ctx)
                                            (filter (inScope ctx) (campaigns s)))\<rparr>)"
      by (rule checkCampaigns_state[OF assms(1)])
    show "c \<in> set (filter (inScope ctx) (campaigns s))"
      using assms(2) sc by simp
    show "campaignTrace ?ids ctx c = executionTrace ?ids ctx c"
      using tm nf by (simp add: campaignTrace_def)
    show "campaignAfter now ?ids ctx c
            = (if actionsComplete ?ids ctx c
               then c\<lparr>cmp_runCount := cmp_runCount c + 1, cmp_lastRunAt := Some now\<rparr>
               else c)"
      using tm by (simp add: campaignAfter_def ranOnce_def)
  }
  {
    assume h: "cmp_actions c = Some (JArr as) \<and> list_all (actionRuns ?ids ctx) as"
    then have acts: "cmp_actions c = Some (JArr as)" and runs: "list_all (actionRuns ?ids ctx) as"
      by simp_all
    show "actionsComplete ?ids ctx c"
      using h by (simp add: actionsComplete_def)
    show "executionTrace ?ids ctx c
            = CampaignLog (cmp_id c) (ctx_trigger ctx) # concat (map (actionTrace ctx) as)"
      using goodCampaign(1)[OF tm acts runs] tm nf by (simp add: campaignTrace_def)
    show "statusesSet ?ids ctx c = List.map_filter (statusSet ctx) as"
      by (rule goodCampaign(3)[OF tm acts runs])
  }
qed

text \<open>
  C10, amended, at a campaign whose condition is \<open>{"minScore": 70}\<close>: an activity.logged
  event matches it, and the dispatch of a policy.issued event at time 7 executes it.
\<close>

theorem evaluateCampaignTrigger_without_trigger_witness:
  "distinct (map cmp_id (campaigns (exStoreWith
      [exCampaign ''c1'' (Some (JObj [(''minScore'', JNum 70)])) (Some (JArr [noteAction ''only'']))])))
   \<and> JObj [(''minScore'', JNum 70)] \<noteq> JNull
   \<and> getProp (JObj [(''minScore'', JNum 70)]) ''trigger'' = Inr None
   \<and> evaluateCampaignTrigger ''c1''
        \<lparr>ctx_trigger = ACTIVITY_LOGGED, ctx_agentId = ''1'', ctx_leadId = Some ''lead-1'',
         ctx_policyId = None\<rparr>
        (exStoreWith
          [exCampaign ''c1'' (Some (JObj [(''minScore'', JNum 70)])) (Some (JArr [noteAction ''only'']))])
      = (Inr True, exStoreWith
          [exCampaign ''c1'' (Some (JObj [(''minScore'', JNum 70)])) (Some (JArr [noteAction ''only'']))])
   \<and> checkCampaigns
          \<lparr>ctx_trigger = POLICY_ISSUED, ctx_agentId = ''1'', ctx_leadId = Some ''lead-1'',
           ctx_policyId = Some ''pol-1''\<rparr> 7
          (exStoreWith
            [exCampaign ''c1'' (Some (JObj [(''minScore'', JNum 70)])) (Some (JArr [noteAction ''only'']))])
      = (Inr (),
         (exStoreWith
            [exCampaign ''c1'' (Some (JObj [(''minScore'', JNum 70)])) (Some (JArr [noteAction ''only'']))])
         \<lparr>campaigns :=
            [(exCampaign ''c1'' (Some (JObj [(''minScore'', JNum 70)])) (Some (JArr [noteAction ''only''])))
               \<lparr>cmp_runCount := 1, cmp_lastRunAt := Some 7\<rparr>],
           logs := [CampaignLog ''c1'' POLICY_ISSUED, ActionLog (noteAction ''only'')]\<rparr>)"
proof -
  define j where "j = JObj [(''minScore'', JNum 70)]"
  define c where "c = exCampaign ''c1'' (Some j) (Some (JArr [noteAction ''only'']))"
  define s where "s = exStoreWith [c]"
  define a where "a = \<lparr>ctx_trigger = ACTIVITY_LOGGED, ctx_agentId = ''1'',
         ctx_leadId = Some ''lead-1'', ctx_policyId = None\<rparr>"
  define p where "p = \<lparr>ctx_trigger = POLICY_ISSUED, ctx_agentId = ''1'',
         ctx_leadId = Some ''lead-1'', ctx_policyId = Some ''pol-1''\<rparr>"
  define ids where "ids = [''lead-1'']"
  have cs: "campaigns s = [c]" and lg: "logs s = []" and ls: "map lead_id (leads s) = ids"
    by (simp_all add: s_def ids_def exStoreWith_simps)
  have cid: "cmp_id c = ''c1''"
    by (simp add: c_def exCampaign_simps)
  have d: "distinct (map cmp_id (campaigns s))"
    by (simp add: cs)
  have cin: "c \<in> set (campaigns s)"
    by (simp add: cs)
  have tc: "cmp_triggerCondition c = Some j"
    by (simp add: c_def exCampaign_simps)
  have nn: "j \<noteq> JNull" and g: "getProp j ''trigger'' = Inr None"
    by (simp_all add: j_def)
  note T = evaluateCampaignTrigger_without_trigger[OF d cin tc nn g]
  have 1: "evaluateCampaignTrigger ''c1'' a s = (Inr True, s)"
    using T[of a 7 "[]", THEN conjunct1] by (simp add: cid)
  have sc: "cmp_active c \<and> cmp_agentId c = ctx_agentId p"
    by (simp add: c_def p_def exCampaign_simps)
  have h: "cmp_actions c = Some (JArr [noteAction ''only''])
            \<and> list_all (actionRuns (map lead_id (leads s)) p) [noteAction ''only'']"
    by (simp add: c_def exCampaign_simps noteAction_facts)
  note A = T[of p 7 "[noteAction ''only'']", THEN conjunct2, THEN conjunct1, rule_format, OF sc,
            unfolded ls]
  note B = T[of p 7 "[noteAction ''only'']", THEN conjunct2, THEN conjunct2, rule_format, OF h,
            unfolded ls]
  have ins: "inScope p c"
    using A[THEN conjunct2, THEN conjunct1] by simp
  have tr: "campaignTrace ids p c = [CampaignLog ''c1'' POLICY_ISSUED, ActionLog (noteAction ''only'')]"
    unfolding A[THEN conjunct2, THEN conjunct2, THEN conjunct1] B[THEN conjunct2, THEN conjunct1]
    by (simp add: cid p_def noteAction_facts)
  have st: "statusesSet ids p c = []"
    unfolding B[THEN conjunct2, THEN conjunct2]
    by (simp add: List.map_filter_simps statusSet_facts)
  have af: "campaignAfter 7 ids p c = c\<lparr>cmp_runCount := 1, cmp_lastRunAt := Some 7\<rparr>"
    unfolding A[THEN conjunct2, THEN conjunct2, THEN conjunct2]
    using B[THEN conjunct1] by (simp add: c_def exCampaign_def)
  have 2: "checkCampaigns p 7 s =
      (Inr (), s\<lparr>campaigns := [c\<lparr>cmp_runCount := 1, cmp_lastRunAt := Some 7\<rparr>],
                 logs := [CampaignLog ''c1'' POLICY_ISSUED, ActionLog (noteAction ''only'')]\<rparr>)"
    unfolding A[THEN conjunct1]
    by (simp add: cs ins tr st af lg map_leadAfter_Nil)
  from d nn g 1 2 show ?thesis
    unfolding s_def c_def j_def a_def p_def by (intro conjI)
qed

section \<open>Events and score updates in the log\<close>




section \<open>The services, for a lead of the store (continued)\<close>











section \<open>The policy table\<close>


lemma findPolicy_id: "findPolicy s i = Some p \<Longrightarrow> pol_id p = i"
  by (auto simp: findPolicy_def find_Some_iff)



lemma sameLedger_findPolicy: "sameLedger s s' \<Longrightarrow> findPolicy s' i = findPolicy s i"
  by (simp add: sameLedger_def findPolicy_def)






section \<open>An update of a policy, step by step\<close>






section \<open>Commissions and the issuance of a policy\<close>







section \<open>The commission pair of a policy\<close>




section \<open>The row of a lead through the services\<close>

lemma findLead_id: "findLead s i = Some l \<Longrightarrow> lead_id l = i"
  by (auto simp: findLead_def find_Some_iff)














section \<open>An update of a lead\<close>





section \<open>Changes of a lead's status: score and events\<close>




section \<open>The status of a lead after an activity\<close>

text \<open>
  The switch of \<open>autoUpdateLeadStatus\<close>: the branches of the calls, of the meetings and
  appointments set, of the proposal and of the application each give a new status only from
  their source statuses, which all precede it; the branch of a completed meeting looks at
  the outcome only.
\<close>

lemma newStatusFor_guards:
  "newStatusFor st t oc = Some st' \<Longrightarrow> t \<noteq> A_MEETING_COMPLETED \<Longrightarrow>
     (t \<in> {A_CALL_OUTBOUND, A_CALL_INBOUND} \<and> st = L_NEW \<and> st' = L_CONTACTED)
     \<or> (t \<in> {A_MEETING_SCHEDULED, A_APPOINTMENT_SET} \<and> st \<in> {L_NEW, L_CONTACTED} \<and> st' = L_ENGAGED)
     \<or> (t = A_PROPOSAL_SENT \<and> st \<in> {L_QUALIFIED, L_ENGAGED} \<and> st' = L_PROPOSAL)
     \<or> (t = A_APPLICATION_SENT \<and> st \<in> {L_PROPOSAL, L_QUALIFIED} \<and> st' = L_APPLICATION)"
  by (simp add: newStatusFor_def split: if_splits)

lemma newStatusFor_meeting_completed:
  "newStatusFor st A_MEETING_COMPLETED oc =
     (if oc = Some O_INTERESTED \<or> oc = Some O_POSITIVE then Some L_QUALIFIED
      else if oc = Some O_NOT_INTERESTED then Some L_NOT_INTERESTED else None)"
  by (simp add: newStatusFor_def)

text \<open>
  C4. A CALL_OUTBOUND logged on a NEW lead makes it CONTACTED, and the same activity on a
  QUALIFIED lead leaves its status, as the claim says. But a MEETING_COMPLETED with outcome
  POSITIVE logged at time 7 on a lead that is PLACED (its policy issued) takes the lead back
  to QUALIFIED: that branch has no guard on the status the lead has.
\<close>

theorem logActivity_meeting_completed_regresses:
  "logActivity \<lparr>cap_agentId = ''1'', cap_leadId = ''lead-1'', cap_type = A_MEETING_COMPLETED,
               cap_outcome = Some O_POSITIVE\<rparr> 7 (exStore [exLead L_PLACED] [])
   = (Inr (), (exStore [exLead L_PLACED] [])
       \<lparr>leads := [(exLead L_PLACED)\<lparr>lead_status := L_QUALIFIED, lead_score := 100, lead_updatedAt := 7\<rparr>],
        activities := [exActivity A_MEETING_COMPLETED (Some O_POSITIVE) 7],
        logs := [ScoringLog ''lead-1'' 0 100, TriggerLog ACTIVITY_LOGGED ''lead-1'',
                 AutomationLog ''Hot lead detected - prioritize'' ''lead-1'',
                 TriggerLog LEAD_STATUS_CHANGED ''lead-1'',
                 AutomationLog ''Lead qualified - scheduling follow-up'' ''lead-1'']\<rparr>)
   \<and> autoUpdateLeadStatus ''lead-1'' A_MEETING_COMPLETED (Some O_POSITIVE) 7
        (exStore [exLead L_PLACED] [])
     = (Inr (), (exStore [exLead L_PLACED] [])
         \<lparr>leads := [(exLead L_PLACED)\<lparr>lead_status := L_QUALIFIED, lead_updatedAt := 7\<rparr>],
          logs := [TriggerLog LEAD_STATUS_CHANGED ''lead-1'',
                   AutomationLog ''Lead qualified - scheduling follow-up'' ''lead-1'']\<rparr>)
   \<and> autoUpdateLeadStatus ''lead-1'' A_CALL_OUTBOUND None 7 (exStore [exLead L_NEW] [])
     = (Inr (), (exStore [exLead L_NEW] [])
         \<lparr>leads := [(exLead L_NEW)\<lparr>lead_status := L_CONTACTED, lead_updatedAt := 7\<rparr>],
          logs := [TriggerLog LEAD_STATUS_CHANGED ''lead-1'']\<rparr>)
   \<and> autoUpdateLeadStatus ''lead-1'' A_CALL_OUTBOUND None 7 (exStore [exLead L_QUALIFIED] [])
     = (Inr (), exStore [exLead L_QUALIFIED] [])"
  by code_simp

end
